theory Spec2Isabelle
  imports Complex_Main "HOL-Library.Word"
begin

section \<open>The sine-wave sender example (sender\_sinewave.c)\<close>

text \<open>
  The development follows \<^verbatim>\<open>src/library/example/sender_sinewave.c\<close>.
  Conventions of the embedding:
  \<^item> \<^verbatim>\<open>size_t\<close> is a 64-bit word, so that \<open>*\<close> and \<open>+\<close> wrap as they do in C;
  \<^item> a \<^verbatim>\<open>double\<close> or \<^verbatim>\<open>float\<close> value is the real number it denotes. The rounding
    of each operation and the \<^verbatim>\<open>sin\<close> of the C library belong to the platform: they
    are parameters of the model (the record \<open>fpu\<close>). Only for whole numbers, where
    IEEE 754 fixes the result, is the rounding to \<^verbatim>\<open>double\<close> written out;
  \<^item> a \<^verbatim>\<open>float\<close> array is a list of cells, \<open>None\<close> for a cell that was never
    stored to; a store outside the array is a fault instead of undefined behaviour.
\<close>

subsection \<open>Constants\<close>

type_synonym size_t = "64 word"

definition EXAMPLE_RECEIVER_IP :: string where
  "EXAMPLE_RECEIVER_IP = ''127.0.0.1''"

definition EXAMPLE_RECEIVER_SOURCE_PORT :: int where
  "EXAMPLE_RECEIVER_SOURCE_PORT = 10001"

definition EXAMPLE_RECEIVER_REPAIR_PORT :: int where
  "EXAMPLE_RECEIVER_REPAIR_PORT = 10002"

definition EXAMPLE_SAMPLE_RATE :: nat where
  "EXAMPLE_SAMPLE_RATE = 44100"

definition EXAMPLE_SINE_RATE :: nat where
  "EXAMPLE_SINE_RATE = 440"

definition EXAMPLE_SINE_SAMPLES :: nat where
  "EXAMPLE_SINE_SAMPLES = EXAMPLE_SAMPLE_RATE * 5"

definition EXAMPLE_BUFFER_SIZE :: nat where
  "EXAMPLE_BUFFER_SIZE = 100"

subsection \<open>Float arrays\<close>

text \<open>
  \<open>cells\<close> is the content of the array. \<open>stored\<close> is a ghost log of the indices
  stored to, oldest first; the program cannot read it.
\<close>

record float_array =
  cells :: "real option list"
  stored :: "nat list"

datatype fault = Out_of_bounds nat

definition fresh_array :: "nat \<Rightarrow> float_array" where
  "fresh_array n = \<lparr>cells = replicate n None, stored = []\<rparr>"

definition store :: "float_array \<Rightarrow> nat \<Rightarrow> real \<Rightarrow> fault + float_array" where
  "store a j v =
     (if j < length (cells a)
      then Inr (a\<lparr>cells := (cells a)[j := Some v], stored := stored a @ [j]\<rparr>)
      else Inl (Out_of_bounds j))"

subsection \<open>Floating point\<close>

text \<open>
  The time index \<^verbatim>\<open>t\<close> of gensine is a \<^verbatim>\<open>double\<close> that always holds a whole number:
  it starts as the conversion of a \<^verbatim>\<open>size_t\<close> value and grows by \<^verbatim>\<open>t += 1\<close>. Such a
  \<^verbatim>\<open>double\<close> is modelled by the natural number it denotes. A \<^verbatim>\<open>double\<close> (IEEE 754
  binary64) has a significand of 53 bits: \<open>double_of_nat x\<close> is the \<^verbatim>\<open>double\<close> nearest
  to \<open>x\<close>, ties going to the even significand, which is what the conversion of a
  \<^verbatim>\<open>size_t\<close> and the addition of two \<^verbatim>\<open>double\<close>s with the exact sum \<open>x\<close> give in the
  default rounding mode.
\<close>

fun bit_length :: "nat \<Rightarrow> nat" where
  "bit_length n = (if n = 0 then 0 else Suc (bit_length (n div 2)))"

declare bit_length.simps [simp del]

definition double_of_nat :: "nat \<Rightarrow> nat" where
  "double_of_nat x =
     (if x \<le> 2 ^ 53 then x
      else
        (let e = bit_length x - 53;
             q = x div 2 ^ e;
             r = x mod 2 ^ e;
             h = 2 ^ (e - 1)
         in if r < h \<or> (r = h \<and> even q) then q * 2 ^ e else (q + 1) * 2 ^ e))"

text \<open>
  The operations on values that are not whole numbers: \<open>dbl\<close> rounds the exact result
  of an operation (or a literal) to \<^verbatim>\<open>double\<close>, \<open>flt\<close> rounds to \<^verbatim>\<open>float\<close>, \<open>libm_sin\<close> is
  the \<^verbatim>\<open>sin\<close> of \<^verbatim>\<open>math.h\<close>. Negation of a \<^verbatim>\<open>float\<close> is exact.
\<close>

record fpu =
  dbl :: "real \<Rightarrow> real"
  flt :: "real \<Rightarrow> real"
  libm_sin :: "real \<Rightarrow> real"

text \<open>A unit that never rounds, as a concrete instance.\<close>

definition exact_fpu :: fpu where
  "exact_fpu = \<lparr>dbl = (\<lambda>x. x), flt = (\<lambda>x. x), libm_sin = sin\<rparr>"

subsection \<open>gensine\<close>

text \<open>
  The expression of lines 52 to 54:
  \<^verbatim>\<open>(float)sin(2 * 3.14159265359 * EXAMPLE_SINE_RATE / EXAMPLE_SAMPLE_RATE * t) * 0.1f\<close>.
  The argument of \<^verbatim>\<open>sin\<close> is computed in \<^verbatim>\<open>double\<close>, from left to right; the value of
  \<^verbatim>\<open>sin\<close> is cast to \<^verbatim>\<open>float\<close> and multiplied, in \<^verbatim>\<open>float\<close>, by the \<^verbatim>\<open>float\<close> literal
  \<^verbatim>\<open>0.1f\<close>.
\<close>

definition sine_sample :: "fpu \<Rightarrow> nat \<Rightarrow> real" where
  "sine_sample fp t =
     (let x = dbl fp (dbl fp (dbl fp (dbl fp (2 * dbl fp 3.14159265359)
                  * real EXAMPLE_SINE_RATE) / real EXAMPLE_SAMPLE_RATE) * real t)
      in flt fp (flt fp (libm_sin fp x) * flt fp 0.1))"

text \<open>Line 60: \<^verbatim>\<open>t += 1;\<close> in \<^verbatim>\<open>double\<close>.\<close>

definition next_time :: "nat \<Rightarrow> nat" where
  "next_time t = double_of_nat (t + 1)"

text \<open>The loop of lines 51 to 61, from the state \<open>(i, t, samples)\<close>.\<close>

function gensine_loop ::
  "fpu \<Rightarrow> size_t \<Rightarrow> size_t \<Rightarrow> nat \<Rightarrow> float_array \<Rightarrow> fault + float_array" where
  "gensine_loop fp num_samples i t samples =
     (if i < num_samples div 2 then
        (let s = sine_sample fp t in
         case store samples (unat (i * 2)) s of
           Inl e \<Rightarrow> Inl e
         | Inr samples1 \<Rightarrow>
             (case store samples1 (unat (i * 2 + 1)) (- s) of
                Inl e \<Rightarrow> Inl e
              | Inr samples2 \<Rightarrow> gensine_loop fp num_samples (i + 1) (next_time t) samples2))
      else Inr samples)"
  by pat_completeness auto

termination
proof (relation "measure (\<lambda>(fp, n, i, t, a). unat (n div 2) - unat i)")
  fix num_samples i :: size_t
  assume lt: "i < num_samples div 2"
  have below: "unat i < unat (num_samples div 2)"
    using lt by (simp add: word_less_nat_alt)
  moreover have "unat (num_samples div 2) < 2 ^ 64"
    using unsigned_less [of "num_samples div 2"] by simp
  ultimately have "unat (i + 1) = Suc (unat i)"
    by (simp add: unat_word_ariths)
  with below show "\<And>fp t samples samples2.
      ((fp, num_samples, i + 1, next_time t, samples2), (fp, num_samples, i, t, samples))
      \<in> measure (\<lambda>(fp, n, i, t, a). unat (n div 2) - unat i)"
    by simp
qed simp

declare gensine_loop.simps [simp del]

text \<open>
  Line 49: \<^verbatim>\<open>double t = batch_num * num_samples / 2;\<close>. The right-hand side is
  computed in \<^verbatim>\<open>size_t\<close> (the product wraps, the division truncates) and then
  converted to \<^verbatim>\<open>double\<close>.
\<close>

definition start_time :: "size_t \<Rightarrow> size_t \<Rightarrow> nat" where
  "start_time batch_num num_samples = double_of_nat (unat (batch_num * num_samples div 2))"

definition gensine :: "fpu \<Rightarrow> float_array \<Rightarrow> size_t \<Rightarrow> size_t \<Rightarrow> fault + float_array" where
  "gensine fp samples batch_num num_samples =
     gensine_loop fp num_samples 0 (start_time batch_num num_samples) samples"

subsection \<open>The library interface used by main\<close>

text \<open>
  The headers \<^verbatim>\<open>roc/context.h\<close>, \<^verbatim>\<open>roc/endpoint.h\<close>, \<^verbatim>\<open>roc/log.h\<close> and
  \<^verbatim>\<open>roc/sender.h\<close> are not part of the example. The types below hold the
  constants and fields that the example names; a field that \<^verbatim>\<open>memset\<close> zeroes and the
  example does not assign afterwards is \<open>None\<close>.
\<close>

datatype roc_log_level = ROC_LOG_DEBUG

datatype roc_channel_set = ROC_CHANNEL_SET_STEREO

datatype roc_frame_encoding = ROC_FRAME_ENCODING_PCM_FLOAT

datatype roc_clock_source = ROC_CLOCK_INTERNAL

datatype roc_interface = ROC_INTERFACE_AUDIO_SOURCE | ROC_INTERFACE_AUDIO_REPAIR

datatype roc_protocol = ROC_PROTO_RTP_RS8M_SOURCE | ROC_PROTO_RS8M_REPAIR

datatype roc_context_config = Zeroed_context_config

record roc_sender_config =
  frame_sample_rate :: nat
  frame_channels :: "roc_channel_set option"
  frame_encoding :: "roc_frame_encoding option"
  clock_source :: "roc_clock_source option"

record roc_frame =
  samples :: "real option list"
  samples_size :: nat

text \<open>The two endpoint variables of main.\<close>

datatype endpoint = Recv_source_endp | Recv_repair_endp

datatype lib_call =
    Roc_log_set_level roc_log_level
  | Roc_context_open roc_context_config
  | Roc_sender_open roc_sender_config
  | Roc_endpoint_allocate endpoint
  | Roc_endpoint_set_protocol endpoint roc_protocol
  | Roc_endpoint_set_host endpoint string
  | Roc_endpoint_set_port endpoint int
  | Roc_sender_connect roc_interface endpoint
  | Roc_endpoint_deallocate endpoint
  | Roc_sender_write roc_frame
  | Roc_sender_close
  | Roc_context_close

text \<open>
  Modelled from the spec: the channel count of a channel set and the size of a sample
  of an encoding are fixed by the library's headers, which are missing. The spec
  speaks of stereo and of 32-bit float PCM.
\<close>

definition sizeof_float :: nat where
  "sizeof_float = 4"

fun num_channels :: "roc_channel_set \<Rightarrow> nat" where
  "num_channels ROC_CHANNEL_SET_STEREO = 2"

fun bytes_per_sample :: "roc_frame_encoding \<Rightarrow> nat" where
  "bytes_per_sample ROC_FRAME_ENCODING_PCM_FLOAT = sizeof_float"

subsection \<open>Running the program against the library\<close>

text \<open>
  The library is outside the program: \<open>env k\<close> is the value that the \<open>k\<close>-th library
  call of the run returns (calls are counted from 0; the value is ignored for a call
  that returns nothing). A run is the list of calls made so far; it ends in an
  \<open>outcome\<close>. The floating-point unit \<open>fp\<close> is passed on to gensine.
\<close>

type_synonym env = "nat \<Rightarrow> int"

datatype ending = Exit int | Crash fault

record outcome =
  calls :: "lib_call list"
  stderr :: string
  ending :: ending

definition invoke :: "env \<Rightarrow> lib_call \<Rightarrow> lib_call list \<Rightarrow> int \<times> lib_call list" where
  "invoke env c h = (env (length h), h @ [c])"

text \<open>The macro \<^verbatim>\<open>oops(msg)\<close>: print to stderr and \<^verbatim>\<open>exit(1)\<close>.\<close>

definition oops_exit :: "string \<Rightarrow> lib_call list \<Rightarrow> outcome" where
  "oops_exit msg h = \<lparr>calls = h, stderr = ''oops: '' @ msg @ [CHR 0x0A], ending = Exit 1\<rparr>"

text \<open>\<^verbatim>\<open>if (call(...) != 0) { oops(msg); }\<close>\<close>

definition call_checked :: "env \<Rightarrow> lib_call \<Rightarrow> string \<Rightarrow> lib_call list \<Rightarrow> outcome + lib_call list" where
  "call_checked env c msg h =
     (case invoke env c h of (r, h') \<Rightarrow> if r \<noteq> 0 then Inl (oops_exit msg h') else Inr h')"

text \<open>A call statement whose value is dropped.\<close>

definition call_ignored :: "env \<Rightarrow> lib_call \<Rightarrow> lib_call list \<Rightarrow> outcome + lib_call list" where
  "call_ignored env c h = (case invoke env c h of (r, h') \<Rightarrow> Inr h')"

definition and_then ::
  "outcome + lib_call list \<Rightarrow> (lib_call list \<Rightarrow> outcome + lib_call list) \<Rightarrow> outcome + lib_call list" where
  "and_then r f = (case r of Inl out \<Rightarrow> Inl out | Inr h \<Rightarrow> f h)"

definition context_config :: roc_context_config where
  "context_config = Zeroed_context_config"

text \<open>Lines 83 to 94.\<close>

definition sender_config :: roc_sender_config where
  "sender_config =
     \<lparr>frame_sample_rate = 0, frame_channels = None, frame_encoding = None, clock_source = None\<rparr>
     \<lparr>frame_sample_rate := EXAMPLE_SAMPLE_RATE,
      frame_channels := Some ROC_CHANNEL_SET_STEREO,
      frame_encoding := Some ROC_FRAME_ENCODING_PCM_FLOAT,
      clock_source := Some ROC_CLOCK_INTERNAL\<rparr>"

text \<open>
  The loop of lines 144 to 159. The array \<^verbatim>\<open>samples\<close> is a fresh, uninitialised
  array in every iteration.
\<close>

function write_loop ::
  "fpu \<Rightarrow> env \<Rightarrow> size_t \<Rightarrow> lib_call list \<Rightarrow> outcome + lib_call list" where
  "write_loop fp env i h =
     (if i < of_nat (EXAMPLE_SINE_SAMPLES div EXAMPLE_BUFFER_SIZE) then
        (case gensine fp (fresh_array EXAMPLE_BUFFER_SIZE) i (of_nat EXAMPLE_BUFFER_SIZE) of
           Inl f \<Rightarrow> Inl \<lparr>calls = h, stderr = [], ending = Crash f\<rparr>
         | Inr filled \<Rightarrow>
             (let frame = \<lparr>samples = cells filled,
                           samples_size = EXAMPLE_BUFFER_SIZE * sizeof_float\<rparr>
              in case call_checked env (Roc_sender_write frame) ''roc_sender_write'' h of
                   Inl out \<Rightarrow> Inl out
                 | Inr h' \<Rightarrow> write_loop fp env (i + 1) h'))
      else Inr h)"
  by pat_completeness auto

termination
proof (relation "measure (\<lambda>(fp, env, i, h).
    unat (of_nat (EXAMPLE_SINE_SAMPLES div EXAMPLE_BUFFER_SIZE) :: size_t) - unat i)")
  fix i :: size_t
  let ?n = "of_nat (EXAMPLE_SINE_SAMPLES div EXAMPLE_BUFFER_SIZE) :: size_t"
  assume lt: "i < ?n"
  have below: "unat i < unat ?n"
    using lt by (simp add: word_less_nat_alt)
  moreover have "unat ?n < 2 ^ 64"
    using unsigned_less [of ?n] by simp
  ultimately have "unat (i + 1) = Suc (unat i)"
    by (simp add: unat_word_ariths)
  with below show "\<And>fp env h h'. ((fp, env, i + 1, h'), (fp, env, i, h))
      \<in> measure (\<lambda>(fp, env, i, h). unat ?n - unat i)"
    by simp
qed simp

declare write_loop.simps [simp del]

text \<open>The statements of main that call the library, in program order.\<close>

definition main_body ::
  "fpu \<Rightarrow> env \<Rightarrow> (lib_call list \<Rightarrow> outcome + lib_call list) list" where
  "main_body fp env =
     [call_ignored env (Roc_log_set_level ROC_LOG_DEBUG),
      call_checked env (Roc_context_open context_config) ''roc_context_open'',
      call_checked env (Roc_sender_open sender_config) ''roc_sender_open'',
      call_checked env (Roc_endpoint_allocate Recv_source_endp) ''roc_endpoint_allocate'',
      call_ignored env (Roc_endpoint_set_protocol Recv_source_endp ROC_PROTO_RTP_RS8M_SOURCE),
      call_ignored env (Roc_endpoint_set_host Recv_source_endp EXAMPLE_RECEIVER_IP),
      call_ignored env (Roc_endpoint_set_port Recv_source_endp EXAMPLE_RECEIVER_SOURCE_PORT),
      call_checked env (Roc_sender_connect ROC_INTERFACE_AUDIO_SOURCE Recv_source_endp)
        ''roc_sender_connect'',
      call_checked env (Roc_endpoint_deallocate Recv_source_endp) ''roc_endpoint_deallocate'',
      call_checked env (Roc_endpoint_allocate Recv_repair_endp) ''roc_endpoint_allocate'',
      call_ignored env (Roc_endpoint_set_protocol Recv_repair_endp ROC_PROTO_RS8M_REPAIR),
      call_ignored env (Roc_endpoint_set_host Recv_repair_endp EXAMPLE_RECEIVER_IP),
      call_ignored env (Roc_endpoint_set_port Recv_repair_endp EXAMPLE_RECEIVER_REPAIR_PORT),
      call_checked env (Roc_sender_connect ROC_INTERFACE_AUDIO_REPAIR Recv_repair_endp)
        ''roc_sender_connect'',
      call_checked env (Roc_endpoint_deallocate Recv_repair_endp) ''roc_endpoint_deallocate'',
      write_loop fp env 0,
      call_checked env Roc_sender_close ''roc_sender_close'',
      call_checked env Roc_context_close ''roc_context_close'']"

text \<open>main: the statements in order, up to the first exit; \<^verbatim>\<open>return 0\<close> at the end.\<close>

definition main :: "fpu \<Rightarrow> env \<Rightarrow> outcome" where
  "main fp env =
     (case foldl and_then (Inr []) (main_body fp env) of
        Inl out \<Rightarrow> out
      | Inr h \<Rightarrow> \<lparr>calls = h, stderr = [], ending = Exit 0\<rparr>)"

subsection \<open>The stream encoder\<close>

text \<open>
  Modelled from the spec: the stream encoder (section 4.3) and the SourcePacket
  (section 3) belong to the library and are missing from the example. The spec's
  words: the encoder slices the sample stream into fixed-size SourcePackets, attaches
  sequence numbers starting at a random or zero initial value and a timestamp
  consistent with elapsed time; samples are neither reordered nor duplicated; packet
  boundaries are independent of the caller's frame boundaries. The spec gives the
  sequence number no width, so it is a natural number here. The timestamp counts the
  samples that precede the packet.
\<close>

record source_packet =
  seqnum :: nat
  timestamp :: nat
  payload :: "real list"

record stream_encoder =
  packet_size :: nat
  next_seqnum :: nat
  next_timestamp :: nat
  pending :: "real list"

text \<open>Emit packets while a whole packet of samples is pending.\<close>

function slice_packets :: "stream_encoder \<Rightarrow> source_packet list \<times> stream_encoder" where
  "slice_packets enc =
     (if 0 < packet_size enc \<and> packet_size enc \<le> length (pending enc) then
        (let p = \<lparr>seqnum = next_seqnum enc, timestamp = next_timestamp enc,
                  payload = take (packet_size enc) (pending enc)\<rparr>;
             (ps, enc') = slice_packets
               (enc\<lparr>next_seqnum := next_seqnum enc + 1,
                    next_timestamp := next_timestamp enc + packet_size enc,
                    pending := drop (packet_size enc) (pending enc)\<rparr>)
         in (p # ps, enc'))
      else ([], enc))"
  by pat_completeness auto

termination
  by (relation "measure (\<lambda>enc. length (pending enc))") auto

declare slice_packets.simps [simp del]

text \<open>One successful write of a frame to the encoder.\<close>

definition encoder_write :: "stream_encoder \<Rightarrow> real list \<Rightarrow> source_packet list \<times> stream_encoder" where
  "encoder_write enc frame = slice_packets (enc\<lparr>pending := pending enc @ frame\<rparr>)"

text \<open>The packets of a session: a sequence of successful writes, in order.\<close>

fun encode_session :: "stream_encoder \<Rightarrow> real list list \<Rightarrow> source_packet list" where
  "encode_session enc [] = []"
| "encode_session enc (frame # frames) =
     (case encoder_write enc frame of (ps, enc') \<Rightarrow> ps @ encode_session enc' frames)"

subsection \<open>Notions used to state the properties\<close>

text \<open>The indices of the pairs \<open>k, \<dots>, h - 1\<close>, in the order gensine stores to them.\<close>

definition pair_indices :: "nat \<Rightarrow> nat \<Rightarrow> nat list" where
  "pair_indices k h = concat (map (\<lambda>m. [2 * m, 2 * m + 1]) [k..<h])"

text \<open>
  The value at index \<open>j\<close> of an interleaved buffer whose pair \<open>k\<close> is sampled at time
  \<open>t\<close> and each later pair after one more \<^verbatim>\<open>t += 1\<close>: left channel at even indices, its
  negation at odd ones.
\<close>

definition time_after :: "nat \<Rightarrow> nat \<Rightarrow> nat" where
  "time_after m t = (next_time ^^ m) t"

definition generated :: "fpu \<Rightarrow> nat \<Rightarrow> nat \<Rightarrow> nat \<Rightarrow> real" where
  "generated fp t k j =
     (if even j then sine_sample fp (time_after (j div 2 - k) t)
      else - sine_sample fp (time_after (j div 2 - k) t))"

text \<open>
  The same where no time index is rounded: pair \<open>m\<close> is sampled at time \<open>t + m\<close>.
\<close>

definition interleaved :: "fpu \<Rightarrow> nat \<Rightarrow> nat \<Rightarrow> real" where
  "interleaved fp t j =
     (if even j then sine_sample fp (t + j div 2) else - sine_sample fp (t + j div 2))"

text \<open>The frame that iteration \<open>i\<close> of the loop of main passes to the sender.\<close>

definition sine_frame :: "fpu \<Rightarrow> nat \<Rightarrow> roc_frame" where
  "sine_frame fp i =
     \<lparr>samples = map (\<lambda>j. Some (interleaved fp (50 * i) j)) [0..<100],
      samples_size = 400\<rparr>"

fun interface_of :: "endpoint \<Rightarrow> roc_interface" where
  "interface_of Recv_source_endp = ROC_INTERFACE_AUDIO_SOURCE"
| "interface_of Recv_repair_endp = ROC_INTERFACE_AUDIO_REPAIR"

fun protocol_of :: "endpoint \<Rightarrow> roc_protocol" where
  "protocol_of Recv_source_endp = ROC_PROTO_RTP_RS8M_SOURCE"
| "protocol_of Recv_repair_endp = ROC_PROTO_RS8M_REPAIR"

fun port_of :: "endpoint \<Rightarrow> int" where
  "port_of Recv_source_endp = 10001"
| "port_of Recv_repair_endp = 10002"

text \<open>Lines 105 to 120 for the source endpoint, lines 125 to 140 for the repair endpoint.\<close>

definition endpoint_block :: "endpoint \<Rightarrow> lib_call list" where
  "endpoint_block e =
     [Roc_endpoint_allocate e,
      Roc_endpoint_set_protocol e (protocol_of e),
      Roc_endpoint_set_host e ''127.0.0.1'',
      Roc_endpoint_set_port e (port_of e),
      Roc_sender_connect (interface_of e) e,
      Roc_endpoint_deallocate e]"

definition setup_calls :: "lib_call list" where
  "setup_calls =
     [Roc_log_set_level ROC_LOG_DEBUG,
      Roc_context_open Zeroed_context_config,
      Roc_sender_open
        \<lparr>frame_sample_rate = 44100,
         frame_channels = Some ROC_CHANNEL_SET_STEREO,
         frame_encoding = Some ROC_FRAME_ENCODING_PCM_FLOAT,
         clock_source = Some ROC_CLOCK_INTERNAL\<rparr>]
     @ endpoint_block Recv_source_endp @ endpoint_block Recv_repair_endp"

definition stream_calls :: "fpu \<Rightarrow> lib_call list" where
  "stream_calls fp =
     map (\<lambda>i. Roc_sender_write (sine_frame fp i)) [0..<2205]
     @ [Roc_sender_close, Roc_context_close]"

text \<open>The calls of a run in which no tested call fails.\<close>

definition full_calls :: "fpu \<Rightarrow> lib_call list" where
  "full_calls fp = setup_calls @ stream_calls fp"

text \<open>Whether main tests the value a call returns, and the message it prints if so.\<close>

fun result_tested :: "lib_call \<Rightarrow> bool" where
  "result_tested (Roc_log_set_level l) = False"
| "result_tested (Roc_endpoint_set_protocol e p) = False"
| "result_tested (Roc_endpoint_set_host e h) = False"
| "result_tested (Roc_endpoint_set_port e p) = False"
| "result_tested c = True"

fun call_name :: "lib_call \<Rightarrow> string" where
  "call_name (Roc_log_set_level l) = ''roc_log_set_level''"
| "call_name (Roc_context_open c) = ''roc_context_open''"
| "call_name (Roc_sender_open c) = ''roc_sender_open''"
| "call_name (Roc_endpoint_allocate e) = ''roc_endpoint_allocate''"
| "call_name (Roc_endpoint_set_protocol e p) = ''roc_endpoint_set_protocol''"
| "call_name (Roc_endpoint_set_host e h) = ''roc_endpoint_set_host''"
| "call_name (Roc_endpoint_set_port e p) = ''roc_endpoint_set_port''"
| "call_name (Roc_sender_connect i e) = ''roc_sender_connect''"
| "call_name (Roc_endpoint_deallocate e) = ''roc_endpoint_deallocate''"
| "call_name (Roc_sender_write f) = ''roc_sender_write''"
| "call_name Roc_sender_close = ''roc_sender_close''"
| "call_name Roc_context_close = ''roc_context_close''"

text \<open>Making a list of calls in order, stopping at the first tested call that fails.\<close>

fun run_calls :: "env \<Rightarrow> lib_call list \<Rightarrow> lib_call list \<Rightarrow> outcome + lib_call list" where
  "run_calls env [] h = Inr h"
| "run_calls env (c # cs) h =
     (if result_tested c \<and> env (length h) \<noteq> 0
      then Inl (oops_exit (call_name c) (h @ [c]))
      else run_calls env cs (h @ [c]))"

fun is_write :: "lib_call \<Rightarrow> bool" where
  "is_write (Roc_sender_write f) = True"
| "is_write c = False"

fun is_open_or_connect :: "lib_call \<Rightarrow> bool" where
  "is_open_or_connect (Roc_sender_open c) = True"
| "is_open_or_connect (Roc_sender_connect i e) = True"
| "is_open_or_connect c = False"

text \<open>Two libraries: one where every call returns 0, one where call \<open>n\<close> alone returns \<open>r\<close>.\<close>

definition all_succeed :: env where
  "all_succeed k = 0"

definition fails_at :: "nat \<Rightarrow> int \<Rightarrow> env" where
  "fails_at n r k = (if k = n then r else 0)"

text \<open>
  A frame is well formed for a sender configuration (the spec, sections 3 and 6): its
  sample count is a positive multiple of the channel count and its byte length is the
  sample count times the size of a sample.
\<close>

definition frame_well_formed :: "roc_sender_config \<Rightarrow> roc_frame \<Rightarrow> bool" where
  "frame_well_formed cfg fr =
     (case (frame_channels cfg, frame_encoding cfg) of
        (Some ch, Some enc) \<Rightarrow>
          0 < length (samples fr) \<and>
          length (samples fr) mod num_channels ch = 0 \<and>
          samples_size fr = length (samples fr) * bytes_per_sample enc
      | _ \<Rightarrow> False)"

text \<open>The number of samples a call hands to the sender.\<close>

fun samples_written :: "lib_call \<Rightarrow> nat" where
  "samples_written (Roc_sender_write fr) = length (samples fr)"
| "samples_written c = 0"

section \<open>Lemmas about the model\<close>

subsection \<open>Index arithmetic in size\_t\<close>

lemma half_bound: "2 * unat ((m :: size_t) div 2) \<le> unat m"
  by (simp add: unat_div)

lemma unat_inc_below: 
  assumes "i < (m :: size_t)" shows "unat (i + 1) = Suc (unat i)"
proof -
  have "unat i < unat m" using assms by (simp add: word_less_nat_alt)
  moreover have "unat m < 2 ^ 64" using unsigned_less [of m] by simp
  ultimately have "unat i + 1 < 2 ^ 64" by simp
  then show ?thesis by (simp add: unat_word_ariths)
qed

lemma unat_left_index: 
  assumes "i < (m :: size_t) div 2" shows "unat (i * 2) = 2 * unat i"
proof -
  have "unat m < 2 ^ 64" using unsigned_less [of m] by simp
  moreover have "unat i < unat m div 2" using assms by (simp add: word_less_nat_alt unat_div)
  ultimately have "unat i * 2 < 2 ^ 64" by simp
  then show ?thesis by (simp add: unat_word_ariths)
qed

lemma unat_right_index: 
  assumes "i < (m :: size_t) div 2" shows "unat (i * 2 + 1) = 2 * unat i + 1"
proof -
  have "unat m < 2 ^ 64" using unsigned_less [of m] by simp
  moreover have "unat i < unat m div 2" using assms by (simp add: word_less_nat_alt unat_div)
  ultimately have "unat i * 2 + 1 < 2 ^ 64" by linarith
  then show ?thesis by (simp add: unat_word_ariths)
qed

lemma gensine_loop_spec:
  "2 * unat (n div 2) \<le> length (cells a) \<Longrightarrow>
   \<exists>out. gensine_loop fp n i t a = Inr out \<and>
     length (cells out) = length (cells a) \<and>
     stored out = stored a @ pair_indices (unat i) (unat (n div 2)) \<and>
     (\<forall>j<length (cells a). cells out ! j =
        (if 2 * unat i \<le> j \<and> j < 2 * unat (n div 2) then Some (generated fp t (unat i) j) else cells a ! j))"
proof (induction fp n i t a rule: gensine_loop.induct)
  case (1 fp n i t a)
  show ?case
  proof (cases "i < n div 2")
    case False
    then have "unat (n div 2) \<le> unat i" by (simp add: word_less_nat_alt)
    with False show ?thesis by (subst gensine_loop.simps) (auto simp: pair_indices_def)
  next
    case True
    let ?k = "unat i" and ?h = "unat (n div 2)"
    have kh: "Suc ?k \<le> ?h" using True by (simp add: word_less_nat_alt)
    define s where "s = sine_sample fp t"
    define a1 where "a1 = a\<lparr>cells := (cells a)[2 * ?k := Some s], stored := stored a @ [2 * ?k]\<rparr>"
    define a2 where "a2 = a1\<lparr>cells := (cells a1)[2 * ?k + 1 := Some (- s)], stored := stored a1 @ [2 * ?k + 1]\<rparr>"
    have st1: "store a (unat (i * 2)) s = Inr a1"
      using kh "1.prems" by (simp add: store_def unat_left_index [OF True] a1_def)
    have len1: "length (cells a1) = length (cells a)" by (simp add: a1_def)
    have st2: "store a1 (unat (i * 2 + 1)) (- s) = Inr a2"
      using kh "1.prems" by (simp add: store_def unat_right_index [OF True] a2_def len1)
    have len2: "length (cells a2) = length (cells a)" by (simp add: a2_def len1)
    from "1.IH" [OF True s_def st1 st2] "1.prems" len2
    obtain out where out: "gensine_loop fp n (i + 1) (next_time t) a2 = Inr out"
      "length (cells out) = length (cells a2)"
      "stored out = stored a2 @ pair_indices (unat (i + 1)) ?h"
      "\<forall>j<length (cells a2). cells out ! j =
        (if 2 * unat (i + 1) \<le> j \<and> j < 2 * ?h then Some (generated fp (next_time t) (unat (i + 1)) j) else cells a2 ! j)"
      by auto
    have inc: "unat (i + 1) = Suc ?k" by (rule unat_inc_below [OF True])
    have run: "gensine_loop fp n i t a = Inr out"
      using True st1 st2 out(1) by (subst gensine_loop.simps) (simp add: s_def)
    have log: "stored out = stored a @ pair_indices ?k ?h"
      using out(3) kh by (simp add: inc a2_def a1_def pair_indices_def upt_conv_Cons)
    have vals: "cells out ! j =
        (if 2 * ?k \<le> j \<and> j < 2 * ?h then Some (generated fp t ?k j) else cells a ! j)"
      if j: "j < length (cells a)" for j
    proof -
      have "j = 2 * ?k \<or> j = 2 * ?k + 1 \<or> j < 2 * ?k \<or> 2 * Suc ?k \<le> j"
        by presburger
      then consider "j = 2 * ?k" | "j = 2 * ?k + 1" | "j < 2 * ?k" | "2 * Suc ?k \<le> j"
        by blast
      then show ?thesis
      proof cases
        case 1
        then show ?thesis using out(4) j len2 kh
          by (simp add: inc a2_def a1_def generated_def time_after_def s_def)
      next
        case 2
        then show ?thesis using out(4) j len2 kh
          by (simp add: inc a2_def a1_def generated_def time_after_def s_def)
      next
        case 3
        then show ?thesis using out(4) j len2 kh
          by (simp add: inc a2_def a1_def)
      next
        case 4
        then have "j div 2 - ?k = Suc (j div 2 - Suc ?k)" by (simp add: Suc_diff_Suc)
        then have "time_after (j div 2 - ?k) t = time_after (j div 2 - Suc ?k) (next_time t)"
          by (simp add: time_after_def funpow_swap1)
        with 4 show ?thesis using out(4) j len2 kh
          by (simp add: inc a2_def a1_def generated_def)
      qed
    qed
    have "length (cells out) = length (cells a)" using out(2) len2 by simp
    with run log vals show ?thesis by simp
  qed
qed


lemma gensine_spec:
  assumes "unat n \<le> length (cells a)"
  shows "\<exists>out. gensine fp a b n = Inr out \<and>
     length (cells out) = length (cells a) \<and>
     stored out = stored a @ pair_indices 0 (unat n div 2) \<and>
     (\<forall>j<length (cells a). cells out ! j =
        (if j < 2 * (unat n div 2) then Some (generated fp (start_time b n) 0 j) else cells a ! j))"
proof -
  have "2 * unat (n div 2) \<le> length (cells a)"
    using assms half_bound [of n] by simp
  from gensine_loop_spec [OF this, of fp 0 "start_time b n"] obtain out where
    "gensine_loop fp n 0 (start_time b n) a = Inr out"
    "length (cells out) = length (cells a)"
    "stored out = stored a @ pair_indices (unat (0 :: size_t)) (unat (n div 2))"
    "\<forall>j<length (cells a). cells out ! j =
        (if 2 * unat (0 :: size_t) \<le> j \<and> j < 2 * unat (n div 2)
         then Some (generated fp (start_time b n) (unat (0 :: size_t)) j) else cells a ! j)"
    by blast
  then show ?thesis
    by (intro exI [of _ out]) (simp add: gensine_def unat_div)
qed

lemma double_of_nat_exact: "x \<le> 2 ^ 53 \<Longrightarrow> double_of_nat x = x"
  by (simp add: double_of_nat_def)

lemma time_after_exact: "t + m \<le> 2 ^ 53 \<Longrightarrow> time_after m t = t + m"
proof (induction m)
  case 0
  show ?case by (simp add: time_after_def)
next
  case (Suc m)
  then have "time_after m t = t + m" by simp
  then have "time_after (Suc m) t = double_of_nat (t + m + 1)"
    by (simp add: time_after_def next_time_def)
  also have "\<dots> = t + m + 1" using Suc.prems by (intro double_of_nat_exact) simp
  finally show ?case by simp
qed

lemma generated_exact: "t + j div 2 \<le> 2 ^ 53 \<Longrightarrow> generated fp t 0 j = interleaved fp t j"
  by (simp add: generated_def interleaved_def time_after_exact)

lemma start_time_example:
  assumes "unat i < 2205"
  shows "start_time i 100 = 50 * unat i"
proof -
  have "unat i * unat (100 :: size_t) < 2 ^ 64" using assms by simp
  then have "unat (i * 100) = unat i * 100"
    by (simp add: unat_word_ariths)
  then have "unat (i * 100 div 2) = 50 * unat i" by (simp add: unat_div)
  moreover have "50 * unat i \<le> 2 ^ 53" using assms by simp
  ultimately show ?thesis by (simp add: start_time_def double_of_nat_exact)
qed

lemma gensine_example:
  assumes "unat i < 2205"
  shows "\<exists>out. gensine fp (fresh_array EXAMPLE_BUFFER_SIZE) i (of_nat EXAMPLE_BUFFER_SIZE) = Inr out \<and>
     cells out = samples (sine_frame fp (unat i))"
proof -
  have cap: "unat (100 :: size_t) \<le> length (cells (fresh_array 100))"
    by (simp add: fresh_array_def)
  from gensine_spec [OF cap, of fp i] obtain out where
    run: "gensine fp (fresh_array 100) i 100 = Inr out" and
    len: "length (cells out) = 100" and
    vals: "\<forall>j<100. cells out ! j = Some (generated fp (start_time i 100) 0 j)"
    by (auto simp: fresh_array_def)
  have "generated fp (50 * unat i) 0 j = interleaved fp (50 * unat i) j" if "j < 100" for j
  proof -
    have "50 * unat i + j div 2 \<le> 50 * 2205 + 50" using assms that by linarith
    then have "50 * unat i + j div 2 \<le> 2 ^ 53" by simp
    then show ?thesis by (rule generated_exact)
  qed
  then have "cells out = map (\<lambda>j. Some (interleaved fp (50 * unat i) j)) [0..<100]"
    using len vals by (intro nth_equalityI) (simp_all add: start_time_example [OF assms])
  with run show ?thesis by (simp add: EXAMPLE_BUFFER_SIZE_def sine_frame_def)
qed

lemma loop_bound: "(of_nat (EXAMPLE_SINE_SAMPLES div EXAMPLE_BUFFER_SIZE) :: size_t) = 2205"
  by (simp add: EXAMPLE_SINE_SAMPLES_def EXAMPLE_BUFFER_SIZE_def EXAMPLE_SAMPLE_RATE_def)

lemma write_loop_run:
  "write_loop fp env i h = run_calls env (map (\<lambda>k. Roc_sender_write (sine_frame fp k)) [unat i..<2205]) h"
proof (induction fp env i h rule: write_loop.induct)
  case (1 fp env i h)
  show ?case
  proof (cases "i < 2205")
    case False
    then have "2205 \<le> unat i" by (simp add: word_less_nat_alt)
    with False show ?thesis by (subst write_loop.simps) (simp add: loop_bound)
  next
    case True
    then have lt: "unat i < 2205" by (simp add: word_less_nat_alt)
    from gensine_example [OF lt] obtain out where
      run: "gensine fp (fresh_array EXAMPLE_BUFFER_SIZE) i (of_nat EXAMPLE_BUFFER_SIZE) = Inr out" and
      out: "cells out = samples (sine_frame fp (unat i))" by blast
    have frame: "\<lparr>samples = cells out, samples_size = EXAMPLE_BUFFER_SIZE * sizeof_float\<rparr> = sine_frame fp (unat i)"
      by (simp add: out sine_frame_def EXAMPLE_BUFFER_SIZE_def sizeof_float_def)
    have inc: "unat (i + 1) = Suc (unat i)" by (rule unat_inc_below [OF True])
    have upt: "[unat i..<2205] = unat i # [Suc (unat i)..<2205]"
      using lt by (simp add: upt_conv_Cons)
    show ?thesis
    proof (cases "env (length h) = 0")
      case True
      have ok: "call_checked env (Roc_sender_write (sine_frame fp (unat i))) ''roc_sender_write'' h
          = Inr (h @ [Roc_sender_write (sine_frame fp (unat i))])"
        using True by (simp add: call_checked_def invoke_def)
      have "write_loop fp env i h = write_loop fp env (i + 1) (h @ [Roc_sender_write (sine_frame fp (unat i))])"
        using \<open>i < 2205\<close> run frame ok by (subst write_loop.simps) (simp add: loop_bound)
      also have "\<dots> = run_calls env (map (\<lambda>k. Roc_sender_write (sine_frame fp k)) [Suc (unat i)..<2205])
          (h @ [Roc_sender_write (sine_frame fp (unat i))])"
        using "1.IH" [of out "\<lparr>samples = cells out, samples_size = EXAMPLE_BUFFER_SIZE * sizeof_float\<rparr>"
              "h @ [Roc_sender_write (sine_frame fp (unat i))]"]
          \<open>i < 2205\<close> run frame ok by (simp add: loop_bound inc)
      finally show ?thesis using True by (simp add: upt)
    next
      case False
      have bad: "call_checked env (Roc_sender_write (sine_frame fp (unat i))) ''roc_sender_write'' h
          = Inl (oops_exit ''roc_sender_write'' (h @ [Roc_sender_write (sine_frame fp (unat i))]))"
        using False by (simp add: call_checked_def invoke_def)
      have "write_loop fp env i h = Inl (oops_exit ''roc_sender_write'' (h @ [Roc_sender_write (sine_frame fp (unat i))]))"
        using \<open>i < 2205\<close> run frame bad by (subst write_loop.simps) (simp add: loop_bound)
      then show ?thesis using False by (simp add: upt)
    qed
  qed
qed

lemma run_calls_append:
  "run_calls env (xs @ ys) h = and_then (run_calls env xs h) (run_calls env ys)"
  by (induction xs arbitrary: h) (simp_all add: and_then_def)

lemma call_checked_run:
  "result_tested c \<Longrightarrow> msg = call_name c \<Longrightarrow> call_checked env c msg = run_calls env [c]"
  by (rule ext) (simp add: call_checked_def invoke_def)

lemma call_ignored_run:
  "\<not> result_tested c \<Longrightarrow> call_ignored env c = run_calls env [c]"
  by (rule ext) (simp add: call_ignored_def invoke_def)

lemma and_then_run:
  "and_then (run_calls env xs h) (run_calls env ys) = run_calls env (xs @ ys) h"
  by (simp add: run_calls_append)

lemma and_then_start: "and_then (Inr []) (run_calls env xs) = run_calls env xs []"
  by (simp add: and_then_def)

lemma main_body_run: "foldl and_then (Inr []) (main_body fp env) = run_calls env (full_calls fp) []"
proof -
  have w: "write_loop fp env 0 = run_calls env (map (\<lambda>k. Roc_sender_write (sine_frame fp k)) [0..<2205])"
    by (rule ext) (simp add: write_loop_run)
  have "foldl and_then (Inr []) (main_body fp env) = 
     run_calls env ([Roc_log_set_level ROC_LOG_DEBUG,
      Roc_context_open context_config,
      Roc_sender_open sender_config,
      Roc_endpoint_allocate Recv_source_endp,
      Roc_endpoint_set_protocol Recv_source_endp ROC_PROTO_RTP_RS8M_SOURCE,
      Roc_endpoint_set_host Recv_source_endp EXAMPLE_RECEIVER_IP,
      Roc_endpoint_set_port Recv_source_endp EXAMPLE_RECEIVER_SOURCE_PORT,
      Roc_sender_connect ROC_INTERFACE_AUDIO_SOURCE Recv_source_endp,
      Roc_endpoint_deallocate Recv_source_endp,
      Roc_endpoint_allocate Recv_repair_endp,
      Roc_endpoint_set_protocol Recv_repair_endp ROC_PROTO_RS8M_REPAIR,
      Roc_endpoint_set_host Recv_repair_endp EXAMPLE_RECEIVER_IP,
      Roc_endpoint_set_port Recv_repair_endp EXAMPLE_RECEIVER_REPAIR_PORT,
      Roc_sender_connect ROC_INTERFACE_AUDIO_REPAIR Recv_repair_endp,
      Roc_endpoint_deallocate Recv_repair_endp]
      @ map (\<lambda>k. Roc_sender_write (sine_frame fp k)) [0..<2205]
      @ [Roc_sender_close, Roc_context_close]) []"
    unfolding main_body_def w
    by (simp only: foldl.simps call_checked_run call_ignored_run result_tested.simps
        call_name.simps and_then_start and_then_run append_Cons append_Nil append_assoc
        simp_thms)
  also have "\<dots> = run_calls env (full_calls fp) []"
    by (simp only: full_calls_def setup_calls_def stream_calls_def endpoint_block_def
        context_config_def sender_config_def EXAMPLE_RECEIVER_IP_def
        EXAMPLE_RECEIVER_SOURCE_PORT_def EXAMPLE_RECEIVER_REPAIR_PORT_def
        EXAMPLE_SAMPLE_RATE_def interface_of.simps protocol_of.simps port_of.simps
        append_Cons append_Nil append_assoc roc_sender_config.simps)
  finally show ?thesis .
qed

lemma pair_indices_Suc: "pair_indices 0 (Suc h) = pair_indices 0 h @ [2 * h, 2 * h + 1]"
  by (simp add: pair_indices_def)

lemma pair_indices_upt: "pair_indices 0 h = [0..<2 * h]"
  by (induction h) (simp_all add: pair_indices_Suc, simp add: pair_indices_def)

subsection \<open>The shape of a run of main\<close>

lemma run_calls_ok:
  "(\<forall>k<length cs. result_tested (cs ! k) \<longrightarrow> env (length h + k) = 0) \<Longrightarrow>
   run_calls env cs h = Inr (h @ cs)"
proof (induction cs arbitrary: h)
  case Nil
  show ?case by simp
next
  case (Cons c cs)
  have head: "result_tested c \<longrightarrow> env (length h) = 0"
    using Cons.prems [rule_format, of 0] by simp
  have "\<forall>k<length cs. result_tested (cs ! k) \<longrightarrow> env (length (h @ [c]) + k) = 0"
    using Cons.prems [rule_format, of "Suc k" for k] by simp
  from Cons.IH [OF this] head show ?case by simp
qed

lemma run_calls_fail:
  "k < length cs \<Longrightarrow> result_tested (cs ! k) \<Longrightarrow> env (length h + k) \<noteq> 0 \<Longrightarrow>
   (\<forall>j<k. result_tested (cs ! j) \<longrightarrow> env (length h + j) = 0) \<Longrightarrow>
   run_calls env cs h = Inl (oops_exit (call_name (cs ! k)) (h @ take (Suc k) cs))"
proof (induction cs arbitrary: h k)
  case Nil
  then show ?case by simp
next
  case (Cons c cs)
  show ?case
  proof (cases k)
    case 0
    with Cons.prems show ?thesis by simp
  next
    case (Suc k')
    have head: "result_tested c \<longrightarrow> env (length h) = 0"
      using Cons.prems(4) [rule_format, of 0] Suc by simp
    have rest: "\<forall>j<k'. result_tested (cs ! j) \<longrightarrow> env (length (h @ [c]) + j) = 0"
      using Cons.prems(4) [rule_format, of "Suc j" for j] Suc by simp
    have "run_calls env cs (h @ [c]) =
        Inl (oops_exit (call_name (cs ! k')) ((h @ [c]) @ take (Suc k') cs))"
      using Cons.prems(1-3) Suc by (intro Cons.IH rest) simp_all
    with head Suc show ?thesis by auto
  qed
qed

lemma length_setup_calls: "length setup_calls = 15"
  by (simp add: setup_calls_def endpoint_block_def)

lemma length_stream_calls: "length (stream_calls fp) = 2207"
  by (simp add: stream_calls_def)

lemma length_full_calls: "length (full_calls fp) = 2222"
  by (simp add: full_calls_def length_setup_calls length_stream_calls)

lemma main_ok:
  assumes "\<forall>k<2222. result_tested (full_calls fp ! k) \<longrightarrow> env k = 0"
  shows "main fp env = \<lparr>calls = (full_calls fp), stderr = [], ending = Exit 0\<rparr>"
proof -
  have "run_calls env (full_calls fp) [] = Inr ([] @ (full_calls fp))"
    using assms by (intro run_calls_ok) (simp add: length_full_calls)
  then show ?thesis by (simp add: main_def main_body_run)
qed

lemma main_fail:
  assumes "k < 2222" "result_tested (full_calls fp ! k)" "env k \<noteq> 0"
    "\<forall>j<k. result_tested (full_calls fp ! j) \<longrightarrow> env j = 0"
  shows "main fp env = oops_exit (call_name (full_calls fp ! k)) (take (Suc k) (full_calls fp))"
proof -
  have "run_calls env (full_calls fp) [] =
      Inl (oops_exit (call_name (full_calls fp ! k)) ([] @ take (Suc k) (full_calls fp)))"
    using assms by (intro run_calls_fail) (simp_all add: length_full_calls)
  then show ?thesis by (simp add: main_def main_body_run)
qed

lemma full_calls_last: "(full_calls fp) ! 2221 = Roc_context_close"
  by (simp add: full_calls_def nth_append length_setup_calls stream_calls_def)

lemma full_calls_close: "(full_calls fp) ! 2220 = Roc_sender_close"
  by (simp add: full_calls_def nth_append length_setup_calls stream_calls_def)

lemma full_calls_write:
  "15 \<le> k \<Longrightarrow> k < 2220 \<Longrightarrow> (full_calls fp) ! k = Roc_sender_write (sine_frame fp (k - 15))"
  by (simp add: full_calls_def nth_append length_setup_calls stream_calls_def)

lemma full_calls_setup: "k < 15 \<Longrightarrow> (full_calls fp) ! k = setup_calls ! k"
  by (simp add: full_calls_def nth_append length_setup_calls)

text \<open>Every run is a non-empty prefix of the full list of calls.\<close>

lemma main_prefix:
  obtains m where "m < 2222" "calls (main fp env) = take (Suc m) (full_calls fp)"
    "\<forall>j<m. result_tested (full_calls fp ! j) \<longrightarrow> env j = 0"
    "m < 2221 \<longrightarrow> result_tested (full_calls fp ! m) \<and> env m \<noteq> 0"
    "ending (main fp env) = (if \<forall>k<2222. result_tested (full_calls fp ! k) \<longrightarrow> env k = 0 then Exit 0 else Exit 1)"
    "stderr (main fp env) = (if \<forall>k<2222. result_tested (full_calls fp ! k) \<longrightarrow> env k = 0 then []
       else ''oops: '' @ call_name (full_calls fp ! m) @ [CHR 0x0A])"
proof (cases "\<forall>k<2222. result_tested (full_calls fp ! k) \<longrightarrow> env k = 0")
  case True
  have "take (Suc 2221) (full_calls fp) = (full_calls fp)" by (simp add: length_full_calls)
  with True main_ok [OF True] show ?thesis
    by (intro that [of 2221]) simp_all
next
  case False
  define bad where "bad k \<longleftrightarrow> k < 2222 \<and> result_tested (full_calls fp ! k) \<and> env k \<noteq> 0" for k
  from False have ex: "\<exists>k. bad k" by (auto simp: bad_def)
  define m where "m = (LEAST k. bad k)"
  have m: "bad m" unfolding m_def using ex by (rule LeastI_ex)
  have least: "\<not> bad j" if "j < m" for j
    using that unfolding m_def by (rule not_less_Least)
  have before: "\<forall>j<m. result_tested (full_calls fp ! j) \<longrightarrow> env j = 0"
    using least m by (auto simp: bad_def)
  from m have "main fp env = oops_exit (call_name (full_calls fp ! m)) (take (Suc m) (full_calls fp))"
    by (intro main_fail before) (simp_all add: bad_def)
  with m before False show ?thesis
    by (intro that [of m]) (simp_all add: bad_def oops_exit_def)
qed

subsection \<open>The frames of a run\<close>

lemma sine_frame_pairs:
  assumes "i < 50"
  shows "\<exists>s. samples (sine_frame fp b) ! (2 * i) = Some s \<and> samples (sine_frame fp b) ! (2 * i + 1) = Some (- s)"
proof -
  have "2 * i < 100" "2 * i + 1 < 100" using assms by simp_all
  then show ?thesis by (simp add: sine_frame_def interleaved_def del: upt_Suc)
qed

lemma write_in_full_calls:
  assumes "Roc_sender_write fr \<in> set (full_calls fp)"
  shows "\<exists>b<2205. fr = sine_frame fp b"
  using assms by (auto simp: full_calls_def setup_calls_def endpoint_block_def stream_calls_def)

lemma write_in_run:
  assumes "Roc_sender_write fr \<in> set (calls (main fp env))"
  shows "\<exists>b<2205. fr = sine_frame fp b"
proof -
  obtain m where "calls (main fp env) = take (Suc m) (full_calls fp)" by (rule main_prefix)
  with assms have "Roc_sender_write fr \<in> set (full_calls fp)" by (auto dest: in_set_takeD)
  then show ?thesis by (rule write_in_full_calls)
qed

lemma first_write_in_full_run:
  "Roc_sender_write (sine_frame fp 0) \<in> set (calls (main fp (\<lambda>k. 0)))"
proof -
  have "sine_frame fp 0 \<in> sine_frame fp ` {0..<2205}" by (intro imageI) simp
  then show ?thesis 
    by (simp add: main_ok full_calls_def stream_calls_def image_image del: upt_Suc)
qed

subsection \<open>Time indices\<close>








subsection \<open>Positions in a run\<close>

lemma take_full_calls: "15 \<le> p \<Longrightarrow> take p (full_calls fp) = setup_calls @ take (p - 15) (stream_calls fp)"
  by (simp add: full_calls_def length_setup_calls)

lemma drop_full_calls: "15 \<le> p \<Longrightarrow> drop p (full_calls fp) = drop (p - 15) (stream_calls fp)"
  by (simp add: full_calls_def length_setup_calls)

lemma setup_no_write: "c \<in> set setup_calls \<Longrightarrow> \<not> is_write c"
  by (auto simp: setup_calls_def endpoint_block_def)

lemma stream_no_open_or_connect: "c \<in> set (stream_calls fp) \<Longrightarrow> \<not> is_open_or_connect c"
  by (auto simp: stream_calls_def)

lemma filter_setup_calls:
  "filter is_open_or_connect setup_calls =
     [Roc_sender_open sender_config,
      Roc_sender_connect ROC_INTERFACE_AUDIO_SOURCE Recv_source_endp,
      Roc_sender_connect ROC_INTERFACE_AUDIO_REPAIR Recv_repair_endp]"
  by (simp add: setup_calls_def endpoint_block_def sender_config_def EXAMPLE_SAMPLE_RATE_def)

lemma write_position:
  assumes "p < 2222" "is_write (full_calls fp ! p)"
  shows "15 \<le> p \<and> p < 2220"
proof -
  have "\<not> p < 15"
  proof
    assume "p < 15"
    then have "(full_calls fp) ! p \<in> set setup_calls"
      by (simp add: full_calls_setup length_setup_calls)
    with assms(2) show False by (simp add: setup_no_write)
  qed
  moreover have "p \<noteq> 2220" "p \<noteq> 2221"
    using assms(2) by (auto simp: full_calls_close full_calls_last)
  ultimately show ?thesis using assms(1) by simp
qed

lemma filter_stream_part:
  "filter is_open_or_connect (take k (drop j (stream_calls fp))) = []"
  by (auto simp: filter_empty_conv dest!: in_set_takeD in_set_dropD stream_no_open_or_connect)

lemma count_writes_full: "length (filter is_write (full_calls fp)) = 2205"
proof -
  have "filter is_write setup_calls = []"
    by (simp add: setup_calls_def endpoint_block_def)
  moreover have "filter is_write (map (\<lambda>i. Roc_sender_write (sine_frame fp i)) [0..<2205]) =
      map (\<lambda>i. Roc_sender_write (sine_frame fp i)) [0..<2205]"
    by (simp add: filter_map comp_def del: upt_Suc)
  ultimately show ?thesis by (simp add: full_calls_def stream_calls_def del: upt_Suc)
qed

lemma length_sine_frame: "length (samples (sine_frame fp b)) = 100"
  by (simp add: sine_frame_def del: upt_Suc)

lemma samples_written_full: "sum_list (map samples_written (full_calls fp)) = 220500"
proof -
  have "sum_list (map samples_written setup_calls) = 0"
    by (simp add: setup_calls_def endpoint_block_def)
  moreover have "map samples_written (map (\<lambda>i. Roc_sender_write (sine_frame fp i)) [0..<2205]) =
      replicate 2205 100"
    by (simp add: map_replicate_const length_sine_frame comp_def del: upt_Suc)
  ultimately show ?thesis
    by (simp add: full_calls_def stream_calls_def sum_list_replicate del: upt_Suc)
qed

subsection \<open>More on the positions of calls\<close>

lemma ending_main:
  "ending (main fp env) =
     (if \<forall>k<2222. result_tested (full_calls fp ! k) \<longrightarrow> env k = 0 then Exit 0 else Exit 1)"
  by (rule main_prefix [where env = env and fp = fp]) simp

lemma tested_sender_open: "result_tested (full_calls fp ! 2)"
  by (simp add: full_calls_setup setup_calls_def)

lemma tested_first_write: "result_tested (full_calls fp ! 15)"
  by (simp add: full_calls_write)

lemma untested_set_protocol: "\<not> result_tested (full_calls fp ! 4)"
  by (simp add: full_calls_setup setup_calls_def endpoint_block_def)

lemma take_3_full_calls:
  "take 3 (full_calls fp) =
     [Roc_log_set_level ROC_LOG_DEBUG, Roc_context_open context_config,
      Roc_sender_open sender_config]"
  by (simp add: full_calls_def setup_calls_def context_config_def sender_config_def
      EXAMPLE_SAMPLE_RATE_def)

lemma tested_context_close: "result_tested (full_calls fp ! 2221)"
  by (simp add: full_calls_last)

lemma filter_stream_prefix: "filter is_open_or_connect (take k (stream_calls fp)) = []"
  by (auto simp: filter_empty_conv dest!: in_set_takeD stream_no_open_or_connect)

lemma calls_all_succeed: "calls (main fp all_succeed) = (full_calls fp)"
  by (simp add: main_ok all_succeed_def)

lemma sine_frame_initialised: "None \<notin> set (samples (sine_frame fp b))"
  by (auto simp: sine_frame_def)

lemma take_drop_take: "j + k \<le> n \<Longrightarrow> take k (drop j (take n xs)) = take k (drop j xs)"
  by (simp add: drop_take min_def)

lemma setup_connect_position:
  assumes "p < 15" "setup_calls ! p = Roc_sender_connect i e"
  shows "(e = Recv_source_endp \<and> i = ROC_INTERFACE_AUDIO_SOURCE \<and> p = 7) \<or>
         (e = Recv_repair_endp \<and> i = ROC_INTERFACE_AUDIO_REPAIR \<and> p = 13)"
  using assms
  by (auto simp: setup_calls_def endpoint_block_def nth_Cons' split: if_splits)

lemma connect_position:
  assumes "p < 2222" "(full_calls fp) ! p = Roc_sender_connect i e"
  shows "(e = Recv_source_endp \<and> i = ROC_INTERFACE_AUDIO_SOURCE \<and> p = 7) \<or>
         (e = Recv_repair_endp \<and> i = ROC_INTERFACE_AUDIO_REPAIR \<and> p = 13)"
proof (cases "p < 15")
  case True
  with assms(2) show ?thesis by (intro setup_connect_position) (simp_all add: full_calls_setup)
next
  case False
  then have "p = 2220 \<or> p = 2221 \<or> (15 \<le> p \<and> p < 2220)" using assms(1) by linarith
  with assms(2) show ?thesis
    by (auto simp: full_calls_close full_calls_last full_calls_write)
qed

lemma source_block: "take 6 (drop 3 (full_calls fp)) = endpoint_block Recv_source_endp"
  by (simp add: full_calls_def setup_calls_def endpoint_block_def)

lemma repair_block: "take 6 (drop 9 (full_calls fp)) = endpoint_block Recv_repair_endp"
  by (simp add: full_calls_def setup_calls_def endpoint_block_def)

lemma block_at_connect:
  assumes "p < 2222" "(full_calls fp) ! p = Roc_sender_connect (interface_of e) e"
  shows "4 \<le> p \<and> p < 14 \<and> take 6 (drop (p - 4) (full_calls fp)) = endpoint_block e \<and> 
    result_tested (full_calls fp ! p)"
  using connect_position [OF assms] assms(2)
  by (auto simp: source_block repair_block)

lemma context_close_position:
  assumes "p < 2222" "(full_calls fp) ! p = Roc_context_close"
  shows "p = 2221"
proof -
  have "\<not> p < 15"
  proof
    assume "p < 15"
    then have "(full_calls fp) ! p \<in> set setup_calls"
      by (simp add: full_calls_setup length_setup_calls)
    with assms(2) show False by (auto simp: setup_calls_def endpoint_block_def)
  qed
  moreover have "\<not> (15 \<le> p \<and> p < 2220)" using assms(2) by (auto simp: full_calls_write)
  moreover have "p \<noteq> 2220" using assms(2) by (auto simp: full_calls_close)
  ultimately show ?thesis using assms(1) by linarith
qed

subsection \<open>Sequence numbers of the stream encoder\<close>

lemma slice_packets_seqnums:
  "slice_packets enc = (ps, enc') \<Longrightarrow>
   map seqnum ps = [next_seqnum enc..<next_seqnum enc + length ps] \<and>
   next_seqnum enc' = next_seqnum enc + length ps"
proof (induction enc arbitrary: ps enc' rule: slice_packets.induct)
  case (1 enc)
  show ?case
  proof (cases "0 < packet_size enc \<and> packet_size enc \<le> length (pending enc)")
    case False
    with "1.prems" show ?thesis by (subst (asm) slice_packets.simps) auto
  next
    case True
    define p where "p = \<lparr>seqnum = next_seqnum enc, timestamp = next_timestamp enc,
                  payload = take (packet_size enc) (pending enc)\<rparr>"
    define enc1 where "enc1 = enc\<lparr>next_seqnum := next_seqnum enc + 1,
                    next_timestamp := next_timestamp enc + packet_size enc,
                    pending := drop (packet_size enc) (pending enc)\<rparr>"
    obtain ps1 enc2 where rest: "slice_packets enc1 = (ps1, enc2)" by (cases "slice_packets enc1")
    from "1.prems" True rest have res: "ps = p # ps1" "enc' = enc2"
      by (subst (asm) slice_packets.simps, simp add: p_def enc1_def Let_def)+
    have start: "next_seqnum enc1 = Suc (next_seqnum enc)" by (simp add: enc1_def)
    from "1.IH" [OF True p_def rest [unfolded enc1_def]]
    have ih: "map seqnum ps1 = [next_seqnum enc1..<next_seqnum enc1 + length ps1] \<and>
      next_seqnum enc2 = next_seqnum enc1 + length ps1"
      unfolding enc1_def .
    have "[next_seqnum enc..<next_seqnum enc + Suc (length ps1)] =
        next_seqnum enc # [Suc (next_seqnum enc)..<Suc (next_seqnum enc) + length ps1]"
      by (simp add: upt_conv_Cons del: upt_Suc)
    moreover have "seqnum p = next_seqnum enc" by (simp add: p_def)
    ultimately show ?thesis using ih by (simp add: res start del: upt_Suc)
  qed
qed

lemma encode_session_seqnums:
  "map seqnum (encode_session enc frames) =
     [next_seqnum enc..<next_seqnum enc + length (encode_session enc frames)]"
proof (induction frames arbitrary: enc)
  case Nil
  show ?case by simp
next
  case (Cons frame frames)
  obtain ps enc' where w: "encoder_write enc frame = (ps, enc')"
    by (cases "encoder_write enc frame")
  then have "slice_packets (enc\<lparr>pending := pending enc @ frame\<rparr>) = (ps, enc')"
    by (simp add: encoder_write_def)
  from slice_packets_seqnums [OF this]
  have ps: "map seqnum ps = [next_seqnum enc..<next_seqnum enc + length ps]"
    and nxt: "next_seqnum enc' = next_seqnum enc + length ps" by simp_all
  have "map seqnum (encode_session enc (frame # frames)) =
      map seqnum ps @ map seqnum (encode_session enc' frames)"
    by (simp add: w)
  also have "\<dots> = [next_seqnum enc..<next_seqnum enc + length ps] @
      [next_seqnum enc + length ps..<next_seqnum enc + length ps + length (encode_session enc' frames)]"
    by (simp only: ps Cons.IH [of enc'] nxt)
  also have "\<dots> = [next_seqnum enc..<next_seqnum enc + (length ps + length (encode_session enc' frames))]"
    using upt_add_eq_append [of "next_seqnum enc" "next_seqnum enc + length ps"
        "length (encode_session enc' frames)"]
    by (simp add: add.assoc)
  finally show ?case by (simp add: w)
qed

section \<open>Properties of gensine\<close>

text \<open>
  Claim C8. gensine never stores out of bounds: for every \<open>batch_num\<close> and
  \<open>num_samples\<close>, on a buffer of at least \<open>num_samples\<close> cells, the call returns
  without a fault and the indices it stores to are \<open>2 * m\<close> and \<open>2 * m + 1\<close> for
  \<open>m < num_samples div 2\<close>, in this order, each at most \<open>num_samples - 1\<close>. For even
  \<open>num_samples\<close> the stores go to \<open>0, \<dots>, num_samples - 1\<close>, each index exactly once, and
  every one of the first \<open>num_samples\<close> cells is initialised afterwards. So every frame
  that main hands to \<^verbatim>\<open>roc_sender_write\<close> is fully initialised, and no run of main ends
  in a fault.
\<close>

theorem gensine_stores_in_bounds:
  "(\<forall>buf batch_num num_samples. unat num_samples \<le> length (cells buf) \<longrightarrow>
      (\<exists>out. gensine fp buf batch_num num_samples = Inr out \<and>
         stored out = stored buf @ pair_indices 0 (unat num_samples div 2) \<and>
         (\<forall>j \<in> set (pair_indices 0 (unat num_samples div 2)).
            j \<le> unat num_samples - 1 \<and> j < unat num_samples) \<and>
         (even (unat num_samples) \<longrightarrow>
            pair_indices 0 (unat num_samples div 2) = [0..<unat num_samples] \<and>
            (\<forall>j<unat num_samples. cells out ! j \<noteq> None)))) \<and>
   (\<forall>env fr. Roc_sender_write fr \<in> set (calls (main fp env)) \<longrightarrow> None \<notin> set (samples fr)) \<and>
   (\<forall>env f. ending (main fp env) \<noteq> Crash f)"
proof (intro conjI allI impI)
  fix buf :: float_array and batch_num num_samples :: size_t
  assume cap: "unat num_samples \<le> length (cells buf)"
  from gensine_spec [OF cap, of fp batch_num] obtain out where
    run: "gensine fp buf batch_num num_samples = Inr out" and
    log: "stored out = stored buf @ pair_indices 0 (unat num_samples div 2)" and
    vals: "\<forall>j<length (cells buf). cells out ! j =
        (if j < 2 * (unat num_samples div 2)
         then Some (generated fp (start_time batch_num num_samples) 0 j) else cells buf ! j)"
    by blast
  have bound: "\<forall>j \<in> set (pair_indices 0 (unat num_samples div 2)). j \<le> unat num_samples - 1 \<and> j < unat num_samples"
    by (auto simp: pair_indices_upt)
  have full: "pair_indices 0 (unat num_samples div 2) = [0..<unat num_samples] \<and>
        (\<forall>j<unat num_samples. cells out ! j \<noteq> None)" if "even (unat num_samples)"
  proof -
    from that have twice: "2 * (unat num_samples div 2) = unat num_samples" by simp
    then show ?thesis using vals cap by (simp add: pair_indices_upt)
  qed
  from run log bound full show "\<exists>out. gensine fp buf batch_num num_samples = Inr out \<and>
         stored out = stored buf @ pair_indices 0 (unat num_samples div 2) \<and>
         (\<forall>j \<in> set (pair_indices 0 (unat num_samples div 2)).
            j \<le> unat num_samples - 1 \<and> j < unat num_samples) \<and>
         (even (unat num_samples) \<longrightarrow>
            pair_indices 0 (unat num_samples div 2) = [0..<unat num_samples] \<and>
            (\<forall>j<unat num_samples. cells out ! j \<noteq> None))"
    by blast
next
  fix env fr
  assume "Roc_sender_write fr \<in> set (calls (main fp env))"
  then show "None \<notin> set (samples fr)"
    by (auto dest!: write_in_run simp: sine_frame_initialised)
next
  fix env f
  show "ending (main fp env) \<noteq> Crash f" by (simp add: ending_main)
qed

theorem gensine_stores_in_bounds_witness:
  "unat (100 :: size_t) \<le> length (cells (fresh_array 100)) \<and>
   (\<exists>out. gensine exact_fpu (fresh_array 100) 3 100 = Inr out \<and> stored out = [0..<100] \<and>
      (\<forall>j<100. cells out ! j \<noteq> None)) \<and>
   Roc_sender_write (sine_frame exact_fpu 0) \<in> set (calls (main exact_fpu (\<lambda>k. 0))) \<and>
   None \<notin> set (samples (sine_frame exact_fpu 0))"
proof -
  have cap: "unat (100 :: size_t) \<le> length (cells (fresh_array 100))"
    by (simp add: fresh_array_def)
  with gensine_stores_in_bounds
  have "\<exists>out. gensine exact_fpu (fresh_array 100) 3 100 = Inr out \<and>
         stored out = stored (fresh_array 100) @ pair_indices 0 (unat (100 :: size_t) div 2) \<and>
         (\<forall>j \<in> set (pair_indices 0 (unat (100 :: size_t) div 2)).
            j \<le> unat (100 :: size_t) - 1 \<and> j < unat (100 :: size_t)) \<and>
         (even (unat (100 :: size_t)) \<longrightarrow>
            pair_indices 0 (unat (100 :: size_t) div 2) = [0..<unat (100 :: size_t)] \<and>
            (\<forall>j<unat (100 :: size_t). cells out ! j \<noteq> None))"
    by blast
  then have a: "\<exists>out. gensine exact_fpu (fresh_array 100) 3 100 = Inr out \<and> stored out = [0..<100] \<and>
      (\<forall>j<100. cells out ! j \<noteq> None)"
    by (auto simp: fresh_array_def)
  from gensine_stores_in_bounds first_write_in_full_run
  have "None \<notin> set (samples (sine_frame exact_fpu 0))" by blast
  with a cap first_write_in_full_run show ?thesis by blast
qed

text \<open>
  Claim C9. The right channel is the negation of the left channel: in the buffer that
  gensine returns, for every pair index \<open>i < num_samples div 2\<close>, the cell \<open>2 * i + 1\<close>
  holds \<open>- s\<close> where the cell \<open>2 * i\<close> holds \<open>s\<close>; and so it is in every frame that main
  passes to \<^verbatim>\<open>roc_sender_write\<close>, for each of its 50 pairs.
\<close>

theorem right_channel_negates_left:
  "(\<forall>buf b n out i. unat n \<le> length (cells buf) \<and> gensine fp buf b n = Inr out \<and> i < unat n div 2 \<longrightarrow>
      (\<exists>s. cells out ! (2 * i) = Some s \<and> cells out ! (2 * i + 1) = Some (- s))) \<and>
   (\<forall>env fr i. Roc_sender_write fr \<in> set (calls (main fp env)) \<and> i < 50 \<longrightarrow>
      (\<exists>s. samples fr ! (2 * i) = Some s \<and> samples fr ! (2 * i + 1) = Some (- s)))"
proof (intro conjI allI impI)
  fix buf b n out i
  assume a: "unat n \<le> length (cells buf) \<and> gensine fp buf b n = Inr out \<and> i < unat n div 2"
  then have cap: "unat n \<le> length (cells buf)" and i: "i < unat n div 2" by simp_all
  from gensine_spec [OF cap, of fp b] a have vals: "\<forall>j<length (cells buf). cells out ! j =
        (if j < 2 * (unat n div 2) then Some (generated fp (start_time b n) 0 j) else cells buf ! j)"
    by auto
  have "2 * i < 2 * (unat n div 2)" "2 * i + 1 < 2 * (unat n div 2)" using i by simp_all
  moreover have "2 * (unat n div 2) \<le> length (cells buf)" using cap by simp
  ultimately have "cells out ! (2 * i) = Some (generated fp (start_time b n) 0 (2 * i))"
    "cells out ! (2 * i + 1) = Some (generated fp (start_time b n) 0 (2 * i + 1))"
    using vals by simp_all
  then show "\<exists>s. cells out ! (2 * i) = Some s \<and> cells out ! (2 * i + 1) = Some (- s)"
    by (simp add: generated_def)
next
  fix env fr and i :: nat
  assume "Roc_sender_write fr \<in> set (calls (main fp env)) \<and> i < 50"
  then show "\<exists>s. samples fr ! (2 * i) = Some s \<and> samples fr ! (2 * i + 1) = Some (- s)"
    using write_in_run [where fr = fr and env = env and fp = fp] sine_frame_pairs [where i = i and fp = fp] by auto
qed

theorem right_channel_negates_left_witness:
  "(\<exists>out s. unat (100 :: size_t) \<le> length (cells (fresh_array 100)) \<and> 
      gensine exact_fpu (fresh_array 100) 7 100 = Inr out \<and> (49 :: nat) < unat (100 :: size_t) div 2 \<and>
      cells out ! (2 * 49) = Some s \<and> cells out ! (2 * 49 + 1) = Some (- s)) \<and>
   (\<exists>s. Roc_sender_write (sine_frame exact_fpu 0) \<in> set (calls (main exact_fpu (\<lambda>k. 0))) \<and> (49 :: nat) < 50 \<and>
      samples (sine_frame exact_fpu 0) ! (2 * 49) = Some s \<and> samples (sine_frame exact_fpu 0) ! (2 * 49 + 1) = Some (- s))"
proof -
  have cap: "unat (100 :: size_t) \<le> length (cells (fresh_array 100))"
    by (simp add: fresh_array_def)
  from gensine_spec [OF cap, of exact_fpu 7] obtain out where run: "gensine exact_fpu (fresh_array 100) 7 100 = Inr out"
    by blast
  have i: "(49 :: nat) < unat (100 :: size_t) div 2" by simp
  from right_channel_negates_left cap run i
  have "\<exists>s. cells out ! (2 * 49) = Some s \<and> cells out ! (2 * 49 + 1) = Some (- s)"
    by blast
  moreover have j: "(49 :: nat) < 50" by simp
  with right_channel_negates_left first_write_in_full_run
  have "\<exists>s. samples (sine_frame exact_fpu 0) ! (2 * 49) = Some s \<and> samples (sine_frame exact_fpu 0) ! (2 * 49 + 1) = Some (- s)"
    by blast
  ultimately show ?thesis using cap run i j first_write_in_full_run by blast
qed




section \<open>Properties of main\<close>

text \<open>
  Claim C1, as stated: in the run where every library call succeeds, main calls
  \<^verbatim>\<open>roc_sender_write\<close> exactly 22 times. It does not: the loop bound is
  \<open>EXAMPLE_SINE_SAMPLES div EXAMPLE_BUFFER_SIZE = 220500 div 100\<close>. The number of
  calls does not depend on the floating-point unit (see the amended claim below); the
  run here is on the unit that does not round.
\<close>

theorem full_run_write_count_counterexample:
  "length (filter is_write (calls (main exact_fpu all_succeed))) \<noteq> 22"
  by (simp add: main_ok all_succeed_def count_writes_full)

text \<open>
  Claim C1, amended. When every library call succeeds, the calls of main are: set the
  log level, open the context, open the sender with sample rate 44100, stereo, float
  PCM and the internal clock, connect the source endpoint (127.0.0.1, port 10001,
  RTP with RS8M source) and the repair endpoint (port 10002, RS8M repair), write 2205
  frames of 100 samples each, close the sender, close the context; main returns 0.
  The frames hold \<open>EXAMPLE_SINE_SAMPLES = 5 * 44100\<close> samples in all.
\<close>

theorem full_run_writes_2205_frames:
  assumes "\<forall>k. env k = 0"
  shows "calls (main fp env) =
      [Roc_log_set_level ROC_LOG_DEBUG,
       Roc_context_open Zeroed_context_config,
       Roc_sender_open
         \<lparr>frame_sample_rate = 44100,
          frame_channels = Some ROC_CHANNEL_SET_STEREO,
          frame_encoding = Some ROC_FRAME_ENCODING_PCM_FLOAT,
          clock_source = Some ROC_CLOCK_INTERNAL\<rparr>,
       Roc_endpoint_allocate Recv_source_endp,
       Roc_endpoint_set_protocol Recv_source_endp ROC_PROTO_RTP_RS8M_SOURCE,
       Roc_endpoint_set_host Recv_source_endp ''127.0.0.1'',
       Roc_endpoint_set_port Recv_source_endp 10001,
       Roc_sender_connect ROC_INTERFACE_AUDIO_SOURCE Recv_source_endp,
       Roc_endpoint_deallocate Recv_source_endp,
       Roc_endpoint_allocate Recv_repair_endp,
       Roc_endpoint_set_protocol Recv_repair_endp ROC_PROTO_RS8M_REPAIR,
       Roc_endpoint_set_host Recv_repair_endp ''127.0.0.1'',
       Roc_endpoint_set_port Recv_repair_endp 10002,
       Roc_sender_connect ROC_INTERFACE_AUDIO_REPAIR Recv_repair_endp,
       Roc_endpoint_deallocate Recv_repair_endp]
      @ map (\<lambda>i. Roc_sender_write (sine_frame fp i)) [0..<2205]
      @ [Roc_sender_close, Roc_context_close] \<and>
    ending (main fp env) = Exit 0 \<and>
    length (filter is_write (calls (main fp env))) = 2205 \<and>
    (\<forall>fr. Roc_sender_write fr \<in> set (calls (main fp env)) \<longrightarrow> length (samples fr) = 100) \<and>
    sum_list (map samples_written (calls (main fp env))) = EXAMPLE_SINE_SAMPLES"
proof -
  have run: "main fp env = \<lparr>calls = (full_calls fp), stderr = [], ending = Exit 0\<rparr>"
    using assms by (intro main_ok) simp
  have shape: "(full_calls fp) =
      [Roc_log_set_level ROC_LOG_DEBUG,
       Roc_context_open Zeroed_context_config,
       Roc_sender_open
         \<lparr>frame_sample_rate = 44100,
          frame_channels = Some ROC_CHANNEL_SET_STEREO,
          frame_encoding = Some ROC_FRAME_ENCODING_PCM_FLOAT,
          clock_source = Some ROC_CLOCK_INTERNAL\<rparr>,
       Roc_endpoint_allocate Recv_source_endp,
       Roc_endpoint_set_protocol Recv_source_endp ROC_PROTO_RTP_RS8M_SOURCE,
       Roc_endpoint_set_host Recv_source_endp ''127.0.0.1'',
       Roc_endpoint_set_port Recv_source_endp 10001,
       Roc_sender_connect ROC_INTERFACE_AUDIO_SOURCE Recv_source_endp,
       Roc_endpoint_deallocate Recv_source_endp,
       Roc_endpoint_allocate Recv_repair_endp,
       Roc_endpoint_set_protocol Recv_repair_endp ROC_PROTO_RS8M_REPAIR,
       Roc_endpoint_set_host Recv_repair_endp ''127.0.0.1'',
       Roc_endpoint_set_port Recv_repair_endp 10002,
       Roc_sender_connect ROC_INTERFACE_AUDIO_REPAIR Recv_repair_endp,
       Roc_endpoint_deallocate Recv_repair_endp]
      @ map (\<lambda>i. Roc_sender_write (sine_frame fp i)) [0..<2205]
      @ [Roc_sender_close, Roc_context_close]"
    by (simp only: full_calls_def setup_calls_def stream_calls_def endpoint_block_def
        interface_of.simps protocol_of.simps port_of.simps append_Cons append_Nil)
  have frames: "\<forall>fr. Roc_sender_write fr \<in> set (calls (main fp env)) \<longrightarrow> length (samples fr) = 100"
    by (auto dest!: write_in_run simp: length_sine_frame)
  have total: "sum_list (map samples_written (calls (main fp env))) = 220500"
    by (simp add: run samples_written_full)
  have "calls (main fp env) = (full_calls fp)" "ending (main fp env) = Exit 0"
    "length (filter is_write (calls (main fp env))) = 2205"
    by (simp_all add: run count_writes_full)
  with frames total show ?thesis
    by (simp only: shape [symmetric] EXAMPLE_SINE_SAMPLES_def EXAMPLE_SAMPLE_RATE_def) simp
qed

theorem full_run_writes_2205_frames_witness:
  "(\<forall>k. all_succeed k = 0) \<and> ending (main exact_fpu all_succeed) = Exit 0 \<and>
   length (filter is_write (calls (main exact_fpu all_succeed))) = 2205 \<and>
   sum_list (map samples_written (calls (main exact_fpu all_succeed))) = EXAMPLE_SINE_SAMPLES"
proof -
  have h: "\<forall>k. all_succeed k = 0" by (simp add: all_succeed_def)
  from full_run_writes_2205_frames [OF h] h show ?thesis by blast
qed

text \<open>
  Claim C2, as stated: the exit code distinguishes the error categories and is zero
  exactly when every library call succeeds. It does neither: \<^verbatim>\<open>oops\<close> always calls
  \<^verbatim>\<open>exit(1)\<close>, so the run where \<^verbatim>\<open>roc_sender_open\<close> (call 2) returns \<open>-1\<close> and the
  run where the first \<^verbatim>\<open>roc_sender_write\<close> (call 15) returns \<open>-1\<close> both end with code
  1; and the value of \<^verbatim>\<open>roc_endpoint_set_protocol\<close> (call 4) is dropped, so the run
  where that call alone returns \<open>-1\<close> ends with code 0. The exit code does not depend
  on the floating-point unit (see the amended claim below); the runs here are on the
  unit that does not round.
\<close>

theorem exit_code_counterexample:
  "main exact_fpu (fails_at 2 (- 1)) =
     \<lparr>calls = [Roc_log_set_level ROC_LOG_DEBUG, Roc_context_open context_config,
               Roc_sender_open sender_config],
      stderr = ''oops: roc_sender_open'' @ [CHR 0x0A], ending = Exit 1\<rparr> \<and>
   ending (main exact_fpu (fails_at 15 (- 1))) = Exit 1 \<and>
   last (calls (main exact_fpu (fails_at 15 (- 1)))) = Roc_sender_write (sine_frame exact_fpu 0) \<and>
   ending (main exact_fpu (fails_at 4 (- 1))) = Exit 0 \<and>
   calls (main exact_fpu (fails_at 4 (- 1))) ! 4 =
     Roc_endpoint_set_protocol Recv_source_endp ROC_PROTO_RTP_RS8M_SOURCE"
proof -
  have open_is: "(full_calls exact_fpu) ! 2 = Roc_sender_open sender_config"
    by (simp add: full_calls_setup setup_calls_def sender_config_def EXAMPLE_SAMPLE_RATE_def)
  have "main exact_fpu (fails_at 2 (- 1)) = oops_exit (call_name (full_calls exact_fpu ! 2)) (take (Suc 2) (full_calls exact_fpu))"
    using tested_sender_open by (intro main_fail) (simp_all add: fails_at_def)
  then have a: "main exact_fpu (fails_at 2 (- 1)) =
     \<lparr>calls = [Roc_log_set_level ROC_LOG_DEBUG, Roc_context_open context_config,
               Roc_sender_open sender_config],
      stderr = ''oops: roc_sender_open'' @ [CHR 0x0A], ending = Exit 1\<rparr>"
    by (simp add: open_is oops_exit_def take_3_full_calls numeral_3_eq_3 [symmetric])
  have "main exact_fpu (fails_at 15 (- 1)) = oops_exit (call_name (full_calls exact_fpu ! 15)) (take (Suc 15) (full_calls exact_fpu))"
    using tested_first_write by (intro main_fail) (simp_all add: fails_at_def)
  moreover have "last (take (Suc 15) (full_calls exact_fpu)) = (full_calls exact_fpu) ! 15"
    using take_Suc_conv_app_nth [of 15 "full_calls exact_fpu"] by (simp add: length_full_calls)
  ultimately have b: "ending (main exact_fpu (fails_at 15 (- 1))) = Exit 1"
    "last (calls (main exact_fpu (fails_at 15 (- 1)))) = Roc_sender_write (sine_frame exact_fpu 0)"
    by (simp_all add: oops_exit_def full_calls_write)
  have "\<forall>k<2222. result_tested (full_calls exact_fpu ! k) \<longrightarrow> fails_at 4 (- 1) k = 0"
    using untested_set_protocol by (auto simp: fails_at_def)
  then have "main exact_fpu (fails_at 4 (- 1)) = \<lparr>calls = (full_calls exact_fpu), stderr = [], ending = Exit 0\<rparr>"
    by (rule main_ok)
  moreover have "(full_calls exact_fpu) ! 4 = Roc_endpoint_set_protocol Recv_source_endp ROC_PROTO_RTP_RS8M_SOURCE"
    by (simp add: full_calls_setup setup_calls_def endpoint_block_def)
  ultimately have c: "ending (main exact_fpu (fails_at 4 (- 1))) = Exit 0"
    "calls (main exact_fpu (fails_at 4 (- 1))) ! 4 =
       Roc_endpoint_set_protocol Recv_source_endp ROC_PROTO_RTP_RS8M_SOURCE"
    by simp_all
  from a b c show ?thesis by (simp only: simp_thms)
qed

text \<open>
  Claim C2, amended. The exit code is 0 exactly when every library call whose value
  main tests returns 0, and 1 otherwise. In the second case main stops at the first
  tested call that returns a non-zero value, after printing \<open>oops:\<close> and the name of
  the function to stderr; the code is 1 for every call and every returned value.
\<close>

theorem exit_code_of_main:
  "ending (main fp env) =
     (if \<forall>k<length (full_calls fp). result_tested (full_calls fp ! k) \<longrightarrow> env k = 0
      then Exit 0 else Exit 1) \<and>
   (ending (main fp env) = Exit 1 \<longrightarrow>
      (\<exists>k<length (full_calls fp). result_tested (full_calls fp ! k) \<and> env k \<noteq> 0 \<and>
         (\<forall>j<k. result_tested (full_calls fp ! j) \<longrightarrow> env j = 0) \<and>
         calls (main fp env) = take (Suc k) (full_calls fp) \<and>
         stderr (main fp env) = ''oops: '' @ call_name (full_calls fp ! k) @ [CHR 0x0A]))"
proof (rule main_prefix [where env = env and fp = fp])
  fix m
  assume m: "m < 2222" "calls (main fp env) = take (Suc m) (full_calls fp)"
    "\<forall>j<m. result_tested (full_calls fp ! j) \<longrightarrow> env j = 0"
    "m < 2221 \<longrightarrow> result_tested (full_calls fp ! m) \<and> env m \<noteq> 0"
    "ending (main fp env) = (if \<forall>k<2222. result_tested (full_calls fp ! k) \<longrightarrow> env k = 0 then Exit 0 else Exit 1)"
    "stderr (main fp env) = (if \<forall>k<2222. result_tested (full_calls fp ! k) \<longrightarrow> env k = 0 then []
       else ''oops: '' @ call_name (full_calls fp ! m) @ [CHR 0x0A])"
  have first: "ending (main fp env) =
     (if \<forall>k<length (full_calls fp). result_tested (full_calls fp ! k) \<longrightarrow> env k = 0
      then Exit 0 else Exit 1)"
    using m(5) by (simp add: length_full_calls)
  have second: "\<exists>k<length (full_calls fp). result_tested (full_calls fp ! k) \<and> env k \<noteq> 0 \<and>
         (\<forall>j<k. result_tested (full_calls fp ! j) \<longrightarrow> env j = 0) \<and>
         calls (main fp env) = take (Suc k) (full_calls fp) \<and>
         stderr (main fp env) = ''oops: '' @ call_name (full_calls fp ! k) @ [CHR 0x0A]"
    if bad: "ending (main fp env) = Exit 1"
  proof -
    from bad m(5) have not_ok: "\<not> (\<forall>k<2222. result_tested (full_calls fp ! k) \<longrightarrow> env k = 0)"
      by (auto split: if_splits)
    have "result_tested (full_calls fp ! m) \<and> env m \<noteq> 0"
    proof (cases "m < 2221")
      case True
      then show ?thesis using m(4) by simp
    next
      case False
      with m(1) have last: "m = 2221" by simp
      from not_ok obtain k where k: "k < 2222" "result_tested (full_calls fp ! k)" "env k \<noteq> 0"
        by auto
      with m(3) last have "\<not> k < 2221" by auto
      with k(1) have "k = 2221" by simp
      with k last show ?thesis by simp
    qed
    with m(1,2,3,6) not_ok show ?thesis
      by (intro exI [of _ m]) (simp add: length_full_calls)
  qed
  from first second show ?thesis by blast
qed

theorem exit_code_of_main_witness:
  "ending (main exact_fpu all_succeed) = Exit 0 \<and> ending (main exact_fpu (fails_at 2221 7)) = Exit 1 \<and>
   (\<exists>k<length (full_calls exact_fpu). result_tested (full_calls exact_fpu ! k) \<and> fails_at 2221 7 k \<noteq> 0 \<and>
      calls (main exact_fpu (fails_at 2221 7)) = take (Suc k) (full_calls exact_fpu))"
proof -
  have ok: "\<forall>k<length (full_calls exact_fpu). result_tested (full_calls exact_fpu ! k) \<longrightarrow> all_succeed k = 0"
    by (simp add: all_succeed_def)
  have bad: "\<not> (\<forall>k<length (full_calls exact_fpu). result_tested (full_calls exact_fpu ! k) \<longrightarrow> fails_at 2221 7 k = 0)"
    using tested_context_close by (auto simp: fails_at_def length_full_calls)
  from exit_code_of_main [of exact_fpu all_succeed] ok
  have a: "ending (main exact_fpu all_succeed) = Exit 0" by simp
  from exit_code_of_main [of exact_fpu "fails_at 2221 7"] bad
  have b: "ending (main exact_fpu (fails_at 2221 7)) = Exit 1" by simp
  with exit_code_of_main [of exact_fpu "fails_at 2221 7"]
  have "\<exists>k<length (full_calls exact_fpu). result_tested (full_calls exact_fpu ! k) \<and> fails_at 2221 7 k \<noteq> 0 \<and>
      calls (main exact_fpu (fails_at 2221 7)) = take (Suc k) (full_calls exact_fpu)"
    by blast
  with a b show ?thesis by blast
qed

text \<open>
  Claim C3. Before the first and before every other \<^verbatim>\<open>roc_sender_write\<close> of a run,
  main has called \<^verbatim>\<open>roc_sender_open\<close> with the sender configuration, then
  \<^verbatim>\<open>roc_sender_connect\<close> for the source endpoint, then for the repair endpoint, each
  exactly once; from a write on there is no further open or connect.
\<close>

theorem configuration_before_writes:
  "\<forall>env p. p < length (calls (main fp env)) \<and> is_write (calls (main fp env) ! p) \<longrightarrow>
     filter is_open_or_connect (take p (calls (main fp env))) =
       [Roc_sender_open sender_config,
        Roc_sender_connect ROC_INTERFACE_AUDIO_SOURCE Recv_source_endp,
        Roc_sender_connect ROC_INTERFACE_AUDIO_REPAIR Recv_repair_endp] \<and>
     filter is_open_or_connect (drop p (calls (main fp env))) = []"
proof (intro allI impI)
  fix env p
  assume a: "p < length (calls (main fp env)) \<and> is_write (calls (main fp env) ! p)"
  obtain m where m: "m < 2222" "calls (main fp env) = take (Suc m) (full_calls fp)"
    by (rule main_prefix)
  from a m have p: "p \<le> m" by (simp add: length_full_calls)
  with a m have "is_write (full_calls fp ! p)" by simp
  with p m(1) have pos: "15 \<le> p \<and> p < 2220" by (intro write_position) simp_all
  have "take p (calls (main fp env)) = take p (full_calls fp)"
    using p by (simp add: m(2) min_def)
  also have "\<dots> = setup_calls @ take (p - 15) (stream_calls fp)"
    using pos by (simp add: take_full_calls)
  finally have before: "filter is_open_or_connect (take p (calls (main fp env))) =
      filter is_open_or_connect setup_calls"
    by (simp add: filter_stream_prefix)
  have "drop p (calls (main fp env)) = take (Suc m - p) (drop p (full_calls fp))"
    by (simp add: m(2) drop_take)
  also have "\<dots> = take (Suc m - p) (drop (p - 15) (stream_calls fp))"
    using pos by (simp add: drop_full_calls)
  finally have "filter is_open_or_connect (drop p (calls (main fp env))) = []"
    by (simp add: filter_stream_part)
  with before show "filter is_open_or_connect (take p (calls (main fp env))) =
       [Roc_sender_open sender_config,
        Roc_sender_connect ROC_INTERFACE_AUDIO_SOURCE Recv_source_endp,
        Roc_sender_connect ROC_INTERFACE_AUDIO_REPAIR Recv_repair_endp] \<and>
     filter is_open_or_connect (drop p (calls (main fp env))) = []"
    by (simp add: filter_setup_calls)
qed

theorem configuration_before_writes_witness:
  "15 < length (calls (main exact_fpu all_succeed)) \<and> is_write (calls (main exact_fpu all_succeed) ! 15) \<and>
   filter is_open_or_connect (take 15 (calls (main exact_fpu all_succeed))) =
       [Roc_sender_open sender_config,
        Roc_sender_connect ROC_INTERFACE_AUDIO_SOURCE Recv_source_endp,
        Roc_sender_connect ROC_INTERFACE_AUDIO_REPAIR Recv_repair_endp] \<and>
   filter is_open_or_connect (drop 15 (calls (main exact_fpu all_succeed))) = []"
proof -
  have h: "15 < length (calls (main exact_fpu all_succeed))" "is_write (calls (main exact_fpu all_succeed) ! 15)"
    by (simp_all add: calls_all_succeed length_full_calls full_calls_write)
  with configuration_before_writes show ?thesis by blast
qed

text \<open>
  Claim C4. Every frame that main passes to \<^verbatim>\<open>roc_sender_write\<close> has 100 samples, a
  whole multiple of the 2 channels of the configured stereo layout, its declared byte
  length is \<open>100 * sizeof(float)\<close>, that is sample count times bytes per sample of the
  configured float PCM encoding, and every sample is initialised.
\<close>

theorem written_frames_well_formed:
  "\<forall>env fr. Roc_sender_write fr \<in> set (calls (main fp env)) \<longrightarrow>
     length (samples fr) = EXAMPLE_BUFFER_SIZE \<and>
     EXAMPLE_BUFFER_SIZE mod num_channels ROC_CHANNEL_SET_STEREO = 0 \<and>
     samples_size fr = EXAMPLE_BUFFER_SIZE * sizeof_float \<and>
     frame_well_formed sender_config fr \<and>
     None \<notin> set (samples fr)"
proof (intro allI impI)
  fix env fr
  assume "Roc_sender_write fr \<in> set (calls (main fp env))"
  then obtain b where fr: "fr = sine_frame fp b" by (auto dest!: write_in_run)
  have "samples_size (sine_frame fp b) = 400" by (simp add: sine_frame_def)
  then show "length (samples fr) = EXAMPLE_BUFFER_SIZE \<and>
     EXAMPLE_BUFFER_SIZE mod num_channels ROC_CHANNEL_SET_STEREO = 0 \<and>
     samples_size fr = EXAMPLE_BUFFER_SIZE * sizeof_float \<and>
     frame_well_formed sender_config fr \<and>
     None \<notin> set (samples fr)"
    using sine_frame_initialised [where b = b and fp = fp]
    by (simp add: fr length_sine_frame EXAMPLE_BUFFER_SIZE_def sizeof_float_def
        frame_well_formed_def sender_config_def)
qed

theorem written_frames_well_formed_witness:
  "Roc_sender_write (sine_frame exact_fpu 0) \<in> set (calls (main exact_fpu all_succeed)) \<and>
   length (samples (sine_frame exact_fpu 0)) = 100 \<and> samples_size (sine_frame exact_fpu 0) = 100 * 4 \<and>
   frame_well_formed sender_config (sine_frame exact_fpu 0)"
proof -
  have "sine_frame exact_fpu 0 \<in> sine_frame exact_fpu ` {0..<2205}" by (intro imageI) simp
  then have h: "Roc_sender_write (sine_frame exact_fpu 0) \<in> set (calls (main exact_fpu all_succeed))"
    by (simp add: calls_all_succeed full_calls_def stream_calls_def image_image del: upt_Suc)
  with written_frames_well_formed 
  have "length (samples (sine_frame exact_fpu 0)) = EXAMPLE_BUFFER_SIZE \<and>
     samples_size (sine_frame exact_fpu 0) = EXAMPLE_BUFFER_SIZE * sizeof_float \<and>
     frame_well_formed sender_config (sine_frame exact_fpu 0)" by blast
  with h show ?thesis by (simp add: EXAMPLE_BUFFER_SIZE_def sizeof_float_def)
qed

text \<open>
  Claim C5. For each of the two endpoints: where main calls \<^verbatim>\<open>roc_sender_connect\<close>
  with it, the four calls before are its allocation and the setting of its protocol,
  host and port; if the connect returns 0, the very next call deallocates it; and
  every write of the run comes after that deallocation. A run that reaches a write
  has gone through the six calls of the source endpoint and then the six calls of the
  repair endpoint.
\<close>

theorem endpoint_lifecycle:
  "(\<forall>env e p. p < length (calls (main fp env)) \<and>
       calls (main fp env) ! p = Roc_sender_connect (interface_of e) e \<longrightarrow>
       4 \<le> p \<and>
       take 5 (drop (p - 4) (calls (main fp env))) = take 5 (endpoint_block e) \<and>
       (env p = 0 \<longrightarrow> take 6 (drop (p - 4) (calls (main fp env))) = endpoint_block e) \<and>
       (\<forall>q<length (calls (main fp env)). is_write (calls (main fp env) ! q) \<longrightarrow> env p = 0 \<and> p + 1 < q)) \<and>
   (\<forall>env q. q < length (calls (main fp env)) \<and> is_write (calls (main fp env) ! q) \<longrightarrow>
       take 6 (drop 3 (calls (main fp env))) = endpoint_block Recv_source_endp \<and>
       take 6 (drop 9 (calls (main fp env))) = endpoint_block Recv_repair_endp \<and> 15 \<le> q)"
proof (intro conjI allI impI)
  fix env e p
  assume a: "p < length (calls (main fp env)) \<and>
       calls (main fp env) ! p = Roc_sender_connect (interface_of e) e"
  obtain m where m: "m < 2222" "calls (main fp env) = take (Suc m) (full_calls fp)"
    "\<forall>j<m. result_tested (full_calls fp ! j) \<longrightarrow> env j = 0"
    "m < 2221 \<longrightarrow> result_tested (full_calls fp ! m) \<and> env m \<noteq> 0"
    by (rule main_prefix [where env = env and fp = fp])
  from a m have p: "p \<le> m" by (simp add: length_full_calls)
  with a m have at: "(full_calls fp) ! p = Roc_sender_connect (interface_of e) e" by simp
  from p m(1) have "p < 2222" by simp
  from block_at_connect [OF this at]
  have blk: "4 \<le> p" "p < 14" "take 6 (drop (p - 4) (full_calls fp)) = endpoint_block e"
    "result_tested (full_calls fp ! p)" by simp_all
  show "4 \<le> p" by fact
  have "take 5 (drop (p - 4) (calls (main fp env))) = take 5 (drop (p - 4) (full_calls fp))"
    using p blk(1) by (simp add: m(2) take_drop_take)
  also have "\<dots> = take 5 (take 6 (drop (p - 4) (full_calls fp)))" by simp
  finally show "take 5 (drop (p - 4) (calls (main fp env))) = take 5 (endpoint_block e)"
    by (simp only: blk(3))
  have later: "p < m" if "env p = 0"
  proof (rule ccontr)
    assume "\<not> p < m"
    with p have "m = p" by simp
    with m(4) blk(2) that show False by simp
  qed
  show "take 6 (drop (p - 4) (calls (main fp env))) = endpoint_block e" if "env p = 0"
  proof -
    from later [OF that] blk(1) have "p - 4 + 6 \<le> Suc m" by simp
    then show ?thesis by (simp only: m(2) take_drop_take blk(3))
  qed
  have writes: "env p = 0 \<and> p + 1 < q"
    if q: "q < length (calls (main fp env))" "is_write (calls (main fp env) ! q)" for q
  proof -
    from q m have qm: "q \<le> m" by (simp add: length_full_calls)
    with q m have "is_write (full_calls fp ! q)" by simp
    with qm m(1) have "15 \<le> q \<and> q < 2220" by (intro write_position) simp_all
    with blk(2) qm have "p < m" "p + 1 < q" by simp_all
    with m(3) blk(4) show ?thesis by simp
  qed
  show "env p = 0"
    if "q < length (calls (main fp env))" "is_write (calls (main fp env) ! q)" for q
    using writes [OF that] by simp
  show "p + 1 < q"
    if "q < length (calls (main fp env))" "is_write (calls (main fp env) ! q)" for q
    using writes [OF that] by simp
next
  fix env q
  assume a: "q < length (calls (main fp env)) \<and> is_write (calls (main fp env) ! q)"
  obtain m where m: "m < 2222" "calls (main fp env) = take (Suc m) (full_calls fp)"
    by (rule main_prefix [where env = env and fp = fp])
  from a m have qm: "q \<le> m" by (simp add: length_full_calls)
  with a m have "is_write (full_calls fp ! q)" by simp
  with qm m(1) have pos: "15 \<le> q \<and> q < 2220" by (intro write_position) simp_all
  with qm have "3 + 6 \<le> Suc m" "9 + 6 \<le> Suc m" by simp_all
  then show "take 6 (drop 3 (calls (main fp env))) = endpoint_block Recv_source_endp"
    "take 6 (drop 9 (calls (main fp env))) = endpoint_block Recv_repair_endp"
    by (simp_all only: m(2) take_drop_take source_block repair_block)
  from pos show "15 \<le> q" by simp
qed

theorem endpoint_lifecycle_witness:
  "13 < length (calls (main exact_fpu all_succeed)) \<and>
   calls (main exact_fpu all_succeed) ! 13 = Roc_sender_connect (interface_of Recv_repair_endp) Recv_repair_endp \<and>
   all_succeed 13 = 0 \<and>
   take 6 (drop (13 - 4) (calls (main exact_fpu all_succeed))) = endpoint_block Recv_repair_endp \<and>
   15 < length (calls (main exact_fpu all_succeed)) \<and> is_write (calls (main exact_fpu all_succeed) ! 15) \<and>
   take 6 (drop 3 (calls (main exact_fpu all_succeed))) = endpoint_block Recv_source_endp"
proof -
  have h: "13 < length (calls (main exact_fpu all_succeed))"
    "calls (main exact_fpu all_succeed) ! 13 = Roc_sender_connect (interface_of Recv_repair_endp) Recv_repair_endp"
    "all_succeed 13 = 0"
    by (simp_all add: calls_all_succeed length_full_calls full_calls_setup setup_calls_def
        endpoint_block_def all_succeed_def)
  have w: "15 < length (calls (main exact_fpu all_succeed))" "is_write (calls (main exact_fpu all_succeed) ! 15)"
    by (simp_all add: calls_all_succeed length_full_calls full_calls_write)
  from endpoint_lifecycle h
  have "take 6 (drop (13 - 4) (calls (main exact_fpu all_succeed))) = endpoint_block Recv_repair_endp"
    by blast
  moreover from endpoint_lifecycle w
  have "take 6 (drop 3 (calls (main exact_fpu all_succeed))) = endpoint_block Recv_source_endp"
    by blast
  ultimately show ?thesis using h w by blast
qed

text \<open>
  Claim C6. Where main calls \<^verbatim>\<open>roc_context_close\<close>, the call just before is
  \<^verbatim>\<open>roc_sender_close\<close> and it has returned 0; \<^verbatim>\<open>roc_context_close\<close> is the last call
  of the run and is called once, so that no call on the sender follows it.
\<close>

theorem sender_closed_before_context:
  "\<forall>env p. p < length (calls (main fp env)) \<and> calls (main fp env) ! p = Roc_context_close \<longrightarrow>
     Suc p = length (calls (main fp env)) \<and> 0 < p \<and>
     calls (main fp env) ! (p - 1) = Roc_sender_close \<and> env (p - 1) = 0 \<and>
     Roc_context_close \<notin> set (take p (calls (main fp env)))"
proof (intro allI impI)
  fix env p
  assume a: "p < length (calls (main fp env)) \<and> calls (main fp env) ! p = Roc_context_close"
  obtain m where m: "m < 2222" "calls (main fp env) = take (Suc m) (full_calls fp)"
    "\<forall>j<m. result_tested (full_calls fp ! j) \<longrightarrow> env j = 0"
    by (rule main_prefix [where env = env and fp = fp])
  from a m have p: "p \<le> m" by (simp add: length_full_calls)
  with a m have "(full_calls fp) ! p = Roc_context_close" by simp
  with p m(1) have last: "p = 2221" by (intro context_close_position) simp_all
  with p m(1) have mlast: "m = 2221" by simp
  then have whole: "calls (main fp env) = (full_calls fp)" by (simp add: m(2) length_full_calls)
  have "env 2220 = 0" using m(3) mlast by (simp add: full_calls_close)
  moreover have "Roc_context_close \<notin> set (take 2221 (full_calls fp))"
  proof
    assume "Roc_context_close \<in> set (take 2221 (full_calls fp))"
    then obtain j where "j < 2221" "(full_calls fp) ! j = Roc_context_close"
      by (auto simp: in_set_conv_nth length_full_calls)
    then show False using context_close_position [of j] by simp
  qed
  ultimately show "Suc p = length (calls (main fp env)) \<and> 0 < p \<and>
     calls (main fp env) ! (p - 1) = Roc_sender_close \<and> env (p - 1) = 0 \<and>
     Roc_context_close \<notin> set (take p (calls (main fp env)))"
    by (simp add: whole last length_full_calls full_calls_close)
qed

theorem sender_closed_before_context_witness:
  "2221 < length (calls (main exact_fpu all_succeed)) \<and> calls (main exact_fpu all_succeed) ! 2221 = Roc_context_close \<and>
   Suc 2221 = length (calls (main exact_fpu all_succeed)) \<and>
   calls (main exact_fpu all_succeed) ! (2221 - 1) = Roc_sender_close \<and> all_succeed (2221 - 1) = 0"
proof -
  have h: "2221 < length (calls (main exact_fpu all_succeed))"
    "calls (main exact_fpu all_succeed) ! 2221 = Roc_context_close"
    by (simp_all add: calls_all_succeed length_full_calls full_calls_last)
  with sender_closed_before_context
  have "Suc 2221 = length (calls (main exact_fpu all_succeed)) \<and>
   calls (main exact_fpu all_succeed) ! (2221 - 1) = Roc_sender_close \<and> all_succeed (2221 - 1) = 0"
    by blast
  with h show ?thesis by blast
qed

section \<open>The stream encoder\<close>

text \<open>
  Claim C7. For any sequence of successful writes within one session, the sequence
  numbers of the SourcePackets that the stream encoder emits, in order of emission,
  are consecutive from the encoder's initial sequence number: strictly increasing,
  without duplicates and without gaps.
\<close>

theorem source_packet_seqnums_increase:
  "map seqnum (encode_session enc frames) =
     [next_seqnum enc..<next_seqnum enc + length (encode_session enc frames)] \<and>
   sorted_wrt (<) (map seqnum (encode_session enc frames)) \<and>
   distinct (map seqnum (encode_session enc frames))"
proof -
  have eq: "map seqnum (encode_session enc frames) =
     [next_seqnum enc..<next_seqnum enc + length (encode_session enc frames)]"
    by (rule encode_session_seqnums)
  have "sorted_wrt (<) [next_seqnum enc..<next_seqnum enc + length (encode_session enc frames)]"
    by (rule sorted_wrt_upt)
  moreover have "distinct [next_seqnum enc..<next_seqnum enc + length (encode_session enc frames)]"
    by (rule distinct_upt)
  ultimately show ?thesis by (simp only: eq [symmetric] simp_thms)
qed

theorem source_packet_seqnums_increase_witness:
  "map seqnum (encode_session \<lparr>packet_size = 3, next_seqnum = 7, next_timestamp = 0, pending = []\<rparr>
      [[1, 2], [3, 4, 5, 6], [7]]) = [7, 8]"
proof -
  define es where "es = encode_session
      \<lparr>packet_size = 3, next_seqnum = 7, next_timestamp = 0, pending = []\<rparr>
      [[1, 2], [3, 4, 5, 6], [7]]"
  have len: "length es = 2"
    unfolding es_def by (simp add: encoder_write_def slice_packets.simps)
  from source_packet_seqnums_increase
    [of "\<lparr>packet_size = 3, next_seqnum = 7, next_timestamp = 0, pending = []\<rparr>"
        "[[1, 2], [3, 4, 5, 6], [7]]", folded es_def]
  have "map seqnum es = [7..<7 + length es]" by simp
  then have "map seqnum es = [7, 8]" by (simp add: len upt_rec)
  then show ?thesis unfolding es_def .
qed

end
